theory Spec2Isabelle
  imports Complex_Main "HOL-Library.Log_Nat"
begin

section \<open>Python numbers as used by \<open>producer.py\<close>\<close>

text \<open>
  The program divides integers with \<open>/\<close> (true division, a binary64 result), compares and
  divides floats, and formats them with \<open>{:,.3f}\<close>. A finite float is modelled by the
  rational it denotes; every arithmetic result is rounded to binary64 (53 bit significand,
  round half to even, gradual underflow, overflow to infinity). The sign of a zero is not
  modelled. The exceptions that the program can raise are values of \<open>py_error\<close>.
\<close>

datatype py_error = ZeroDivisionError | OverflowError | ValueError | KafkaException string

datatype pyfloat = Finite rat | PosInf | NegInf | NaN

datatype pynum = PyInt int | PyFloat pyfloat

definition round_half_even :: "rat \<Rightarrow> int" where
  "round_half_even q =
     (let f = \<lfloor>q\<rfloor>; d = q - of_int f
      in if d < 1 / 2 then f else if 1 / 2 < d then f + 1 else if even f then f else f + 1)"

text \<open>The binade of a positive rational \<open>a\<close>: the \<open>e\<close> with \<open>2 powi e \<le> a < 2 powi (e + 1)\<close>.\<close>

definition ilog2 :: "rat \<Rightarrow> int" where
  "ilog2 a =
     (case quotient_of a of (n, d) \<Rightarrow>
        let k = bitlen n - bitlen d in if 2 powi k \<le> a then k else k - 1)"

definition round_to_double :: "rat \<Rightarrow> pyfloat" where
  "round_to_double q =
     (if q = 0 then Finite 0
      else let a = \<bar>q\<bar>;
               e = max (ilog2 a - 52) (- 1074);
               r = of_int (round_half_even (a / 2 powi e)) * 2 powi e
           in if 2 ^ 1024 \<le> r then (if 0 < q then PosInf else NegInf)
              else Finite (sgn q * r))"

text \<open>\<open>float(n)\<close> for an int: raises OverflowError when the int is too large.\<close>

definition float_of_int :: "int \<Rightarrow> py_error + pyfloat" where
  "float_of_int n =
     (case round_to_double (of_int n) of
        Finite q \<Rightarrow> Inr (Finite q)
      | _ \<Rightarrow> Inl OverflowError)"

text \<open>\<open>a / b\<close> on two ints: the correctly rounded quotient, or an exception.\<close>

definition int_truediv :: "int \<Rightarrow> int \<Rightarrow> py_error + pyfloat" where
  "int_truediv a b =
     (if b = 0 then Inl ZeroDivisionError
      else case round_to_double (of_int a / of_int b) of
             Finite q \<Rightarrow> Inr (Finite q)
           | _ \<Rightarrow> Inl OverflowError)"

fun float_sub :: "pyfloat \<Rightarrow> pyfloat \<Rightarrow> pyfloat" where
  "float_sub (Finite a) (Finite b) = round_to_double (a - b)"
| "float_sub NaN _ = NaN"
| "float_sub _ NaN = NaN"
| "float_sub PosInf PosInf = NaN"
| "float_sub NegInf NegInf = NaN"
| "float_sub PosInf _ = PosInf"
| "float_sub NegInf _ = NegInf"
| "float_sub (Finite a) PosInf = NegInf"
| "float_sub (Finite a) NegInf = PosInf"

fun float_lt :: "pyfloat \<Rightarrow> pyfloat \<Rightarrow> bool" where
  "float_lt NaN _ = False"
| "float_lt _ NaN = False"
| "float_lt (Finite a) (Finite b) = (a < b)"
| "float_lt (Finite a) PosInf = True"
| "float_lt NegInf (Finite b) = True"
| "float_lt NegInf PosInf = True"
| "float_lt _ _ = False"

text \<open>\<open>x / y\<close> on two floats: ZeroDivisionError on a zero divisor, no other exception.\<close>

fun float_truediv :: "pyfloat \<Rightarrow> pyfloat \<Rightarrow> py_error + pyfloat" where
  "float_truediv x (Finite b) =
     (if b = 0 then Inl ZeroDivisionError
      else case x of
             Finite a \<Rightarrow> Inr (round_to_double (a / b))
           | PosInf \<Rightarrow> Inr (if 0 < b then PosInf else NegInf)
           | NegInf \<Rightarrow> Inr (if 0 < b then NegInf else PosInf)
           | NaN \<Rightarrow> Inr NaN)"
| "float_truediv (Finite a) PosInf = Inr (Finite 0)"
| "float_truediv (Finite a) NegInf = Inr (Finite 0)"
| "float_truediv _ _ = Inr NaN"

text \<open>\<open>max(x, y)\<close> of two floats keeps \<open>x\<close> unless \<open>y > x\<close>.\<close>

definition float_max :: "pyfloat \<Rightarrow> pyfloat \<Rightarrow> pyfloat" where
  "float_max x y = (if float_lt x y then y else x)"

text \<open>\<open>math.ceil\<close> of a float.\<close>

fun math_ceil :: "pyfloat \<Rightarrow> py_error + int" where
  "math_ceil (Finite q) = Inr \<lceil>q\<rceil>"
| "math_ceil NaN = Inl ValueError"
| "math_ceil _ = Inl OverflowError"

text \<open>\<open>n < 1024.0\<close> and \<open>n / 1024.0\<close> where \<open>n\<close> is an int or a float. An int is compared
  exactly and is converted to a float before it is divided.\<close>

fun num_lt :: "pynum \<Rightarrow> pyfloat \<Rightarrow> bool" where
  "num_lt (PyInt i) y = float_lt (Finite (of_int i)) y"
| "num_lt (PyFloat x) y = float_lt x y"

fun num_truediv :: "pynum \<Rightarrow> pyfloat \<Rightarrow> py_error + pyfloat" where
  "num_truediv (PyInt i) y =
     (case float_of_int i of Inl e \<Rightarrow> Inl e | Inr x \<Rightarrow> float_truediv x y)"
| "num_truediv (PyFloat x) y = float_truediv x y"

subsection \<open>Rendering numbers\<close>

definition digit_char :: "nat \<Rightarrow> char" where
  "digit_char n = char_of (48 + n)"

function digits :: "nat \<Rightarrow> string" where
  "digits n = (if n < 10 then [digit_char n] else digits (n div 10) @ [digit_char (n mod 10)])"
  by pat_completeness auto
termination
  by (relation "measure id") auto

declare digits.simps [simp del]

text \<open>\<open>str(i)\<close> for an int.\<close>

definition str_int :: "int \<Rightarrow> string" where
  "str_int i = (if i < 0 then ''-'' @ digits (nat (- i)) else digits (nat i))"

text \<open>The thousands separator of the \<open>,\<close> format option.\<close>

function commas :: "string \<Rightarrow> string" where
  "commas s =
     (if length s \<le> 3 then s
      else commas (take (length s - 3) s) @ '','' @ drop (length s - 3) s)"
  by pat_completeness auto
termination
  by (relation "measure length") auto

declare commas.simps [simp del]

definition zero_pad :: "nat \<Rightarrow> string \<Rightarrow> string" where
  "zero_pad d s = replicate (d - length s) (CHR ''0'') @ s"

text \<open>\<open>f"{x:,.df}"\<close> for a float \<open>x\<close>: the exact value rounded half-even to \<open>d\<close> decimals.\<close>

fun format_float :: "nat \<Rightarrow> pyfloat \<Rightarrow> string" where
  "format_float d (Finite q) =
     (let m = nat (round_half_even (\<bar>q\<bar> * 10 ^ d))
      in (if q < 0 then ''-'' else '''') @ commas (digits (m div 10 ^ d)) @
         (if d = 0 then '''' else ''.'' @ zero_pad d (digits (m mod 10 ^ d))))"
| "format_float d PosInf = ''inf''"
| "format_float d NegInf = ''-inf''"
| "format_float d NaN = ''nan''"

text \<open>The same format applied to an int converts it to a float first.\<close>

fun format_num :: "nat \<Rightarrow> pynum \<Rightarrow> py_error + string" where
  "format_num d (PyInt i) =
     (case float_of_int i of Inl e \<Rightarrow> Inl e | Inr x \<Rightarrow> Inr (format_float d x))"
| "format_num d (PyFloat x) = Inr (format_float d x)"

section \<open>The formatters \<open>_fmt_bytes\<close> and \<open>_fmt_rate\<close>\<close>

text \<open>Both functions run the same loop over five units and fall back to a sixth; the loop
  takes the number of decimals, the units still to try and the fallback unit.\<close>

fun fmt_loop :: "nat \<Rightarrow> string list \<Rightarrow> string \<Rightarrow> pynum \<Rightarrow> py_error + string" where
  "fmt_loop d [] final n =
     (case format_num d n of Inl e \<Rightarrow> Inl e | Inr t \<Rightarrow> Inr (t @ '' '' @ final))"
| "fmt_loop d (unit # units) final n =
     (if num_lt n (Finite 1024)
      then (case format_num d n of Inl e \<Rightarrow> Inl e | Inr t \<Rightarrow> Inr (t @ '' '' @ unit))
      else (case num_truediv n (Finite 1024) of
              Inl e \<Rightarrow> Inl e
            | Inr x \<Rightarrow> fmt_loop d units final (PyFloat x)))"

definition fmt_bytes :: "pynum \<Rightarrow> py_error + string" where
  "fmt_bytes n = fmt_loop 3 [''B'', ''KB'', ''MB'', ''GB'', ''TB''] ''PB'' n"

definition fmt_rate :: "pynum \<Rightarrow> py_error + string" where
  "fmt_rate bps = fmt_loop 2 [''B/s'', ''KB/s'', ''MB/s'', ''GB/s'', ''TB/s''] ''PB/s'' bps"

section \<open>Configuration, environment and program state\<close>

text \<open>The module-level settings read from the process environment (lines 14 to 23).\<close>

record config =
  KAFKA_BOOTSTRAP_SERVERS :: string
  KAFKA_SECURITY_PROTOCOL :: string
  KAFKA_SASL_MECHANISM :: string
  KAFKA_SASL_USERNAME :: string
  KAFKA_SASL_PASSWORD :: string
  JOB_TOPIC_NAME :: string
  JOB_MSG_BYTES :: int
  JOB_MAX_BYTES :: int
  JOB_LINGER_MS :: int
  JOB_BATCH_SIZE :: int

text \<open>\<open>s * n\<close> on a string and an int (or a bool, which counts as 0 or 1).\<close>

definition str_mul :: "string \<Rightarrow> int \<Rightarrow> string" where
  "str_mul s n = concat (replicate (nat n) s)"

definition MESSAGE :: "config \<Rightarrow> string" where
  "MESSAGE cfg = str_mul ''0'' (JOB_MSG_BYTES cfg)"

datatype pyvalue = V_str string | V_int int | V_float pyfloat | V_bool bool

text \<open>The dictionary handed to \<open>Producer\<close> (lines 58 to 72), in the order it is written.\<close>

definition producer_config :: "config \<Rightarrow> py_error + (string \<times> pyvalue) list" where
  "producer_config cfg =
     (case int_truediv (JOB_MSG_BYTES cfg * JOB_BATCH_SIZE cfg) 1024 of
        Inl e \<Rightarrow> Inl e
      | Inr kbytes \<Rightarrow> Inr
         [(''bootstrap.servers'', V_str (KAFKA_BOOTSTRAP_SERVERS cfg)),
          (''security.protocol'', V_str (KAFKA_SECURITY_PROTOCOL cfg)),
          (''sasl.mechanisms'', V_str (KAFKA_SASL_MECHANISM cfg)),
          (''sasl.username'', V_str (KAFKA_SASL_USERNAME cfg)),
          (''sasl.password'',
             V_str (str_mul ''******'' (of_bool (0 < length (KAFKA_SASL_PASSWORD cfg))))),
          (''compression.type'', V_str ''none''),
          (''linger.ms'', V_int (JOB_LINGER_MS cfg)),
          (''batch.size'', V_int (JOB_MSG_BYTES cfg * JOB_BATCH_SIZE cfg)),
          (''queue.buffering.max.kbytes'', V_float kbytes),
          (''acks'', V_int 1),
          (''enable.idempotence'', V_bool False),
          (''socket.keepalive.enable'', V_bool True)])"

text \<open>
  The broker client, the clock and the uuid generator are outside the program. Their
  behaviour in one run is a parameter: what the \<open>n\<close>-th call of \<open>producer.produce\<close> does,
  which delivery reports the \<open>n\<close>-th call of \<open>poll\<close> or \<open>flush\<close> hands to the callback,
  what the \<open>n\<close>-th call of \<open>uuid.uuid4\<close> and of \<open>time.time\<close> returns.
\<close>

datatype produce_result = Enqueued | BufferError | Raised string

record message =
  offset :: "int option"

record environment =
  produce_outcome :: "nat \<Rightarrow> produce_result"
  delivery_reports :: "nat \<Rightarrow> (string option \<times> message) list"
  uuid4 :: "nat \<Rightarrow> string"
  time_time :: "nat \<Rightarrow> rat"

text \<open>What the program does to the outside, in order. \<open>Produce topic key value r\<close> is one
  call of \<open>producer.produce\<close> with its result.\<close>

datatype event =
    Stdout string
  | Stderr string
  | Producer_created "(string \<times> pyvalue) list"
  | Produce string string string produce_result
  | Poll pynum
  | Flush
  | Tqdm_open int
  | Set_postfix string string
  | Update int
  | Tqdm_close

text \<open>The local variables of \<open>main\<close>, the events so far and the number of calls made to each
  part of the environment.\<close>

record state =
  running :: bool
  bytes_sent :: int
  last_batch_rate :: pyfloat
  start :: pyfloat
  trace :: "event list"
  n_produce :: nat
  n_poll :: nat
  n_uuid :: nat
  n_time :: nat

section \<open>The program\<close>

definition str_offset :: "int option \<Rightarrow> string" where
  "str_offset v = (case v of None \<Rightarrow> ''None'' | Some i \<Rightarrow> str_int i)"

text \<open>Lines 77 to 80. \<open>err\<close> is \<open>None\<close> or the text of the error.\<close>

definition on_delivery_cb :: "string option \<Rightarrow> message \<Rightarrow> state \<Rightarrow> state" where
  "on_delivery_cb err msg s =
     (case err of
        None \<Rightarrow> s
      | Some e \<Rightarrow>
          s\<lparr>trace := trace s @
            [Stderr (''Delivery failed for offset='' @ str_offset (offset msg) @
                     '' error='' @ e @ [CHR 0x0A])]\<rparr>)"

text \<open>\<open>poll\<close> and \<open>flush\<close> invoke the callback on the reports the client has ready.\<close>

definition serve_callbacks :: "environment \<Rightarrow> state \<Rightarrow> state" where
  "serve_callbacks env s =
     fold (\<lambda>(err, msg). on_delivery_cb err msg) (delivery_reports env (n_poll s))
          (s\<lparr>n_poll := n_poll s + 1\<rparr>)"

definition poll :: "environment \<Rightarrow> pynum \<Rightarrow> state \<Rightarrow> state" where
  "poll env timeout s = serve_callbacks env (s\<lparr>trace := trace s @ [Poll timeout]\<rparr>)"

definition flush :: "environment \<Rightarrow> state \<Rightarrow> state" where
  "flush env s = serve_callbacks env (s\<lparr>trace := trace s @ [Flush]\<rparr>)"

text \<open>The literal \<open>0.1\<close> of line 90 and the literal \<open>1e-9\<close> of line 115.\<close>

definition backoff_seconds :: pyfloat where
  "backoff_seconds = round_to_double (1 / 10)"

definition min_elapsed :: pyfloat where
  "min_elapsed = round_to_double (1 / 10 ^ 9)"

text \<open>Lines 82 to 90. The loop ends when \<open>produce\<close> accepts the message or raises something
  other than BufferError; it need not end, so the result is an option.\<close>

partial_function (option) send ::
  "environment \<Rightarrow> string \<Rightarrow> string \<Rightarrow> state \<Rightarrow> (py_error + state) option" where
  "send env payload topic s =
     (let key = uuid4 env (n_uuid s);
          r = produce_outcome env (n_produce s);
          s1 = s\<lparr>n_uuid := n_uuid s + 1, n_produce := n_produce s + 1,
                 trace := trace s @ [Produce topic key payload r]\<rparr>
      in case r of
           Enqueued \<Rightarrow> Some (Inr s1)
         | BufferError \<Rightarrow> send env payload topic (poll env (PyFloat backoff_seconds) s1)
         | Raised e \<Rightarrow> Some (Inl (KafkaException e)))"

declare send.simps [code]

text \<open>Lines 107 to 109: \<open>for _ in range(JOB_BATCH_SIZE)\<close>, with the number of rounds left.\<close>

fun send_batch :: "config \<Rightarrow> environment \<Rightarrow> nat \<Rightarrow> state \<Rightarrow> (py_error + state) option" where
  "send_batch cfg env 0 s = Some (Inr s)"
| "send_batch cfg env (Suc n) s =
     (case send env (MESSAGE cfg) (JOB_TOPIC_NAME cfg) s of
        None \<Rightarrow> None
      | Some (Inl e) \<Rightarrow> Some (Inl e)
      | Some (Inr s') \<Rightarrow>
          send_batch cfg env n (s'\<lparr>bytes_sent := bytes_sent s' + JOB_MSG_BYTES cfg\<rparr>))"

text \<open>Lines 115 to 123: the report after a batch.\<close>

definition report :: "environment \<Rightarrow> state \<Rightarrow> py_error + state" where
  "report env s =
     (let elapsed = float_max (float_sub (Finite (time_time env (n_time s))) (start s)) min_elapsed;
          s1 = s\<lparr>n_time := n_time s + 1\<rparr>
      in case num_truediv (PyInt (bytes_sent s1)) elapsed of
           Inl e \<Rightarrow> Inl e
         | Inr rate \<Rightarrow>
             (case fmt_bytes (PyInt (bytes_sent s1)) of
                Inl e \<Rightarrow> Inl e
              | Inr sent \<Rightarrow>
                  (case fmt_rate (PyFloat rate) of
                     Inl e \<Rightarrow> Inl e
                   | Inr tput \<Rightarrow>
                       Inr (s1\<lparr>trace := trace s1 @ [Set_postfix sent tput, Update 1]\<rparr>))))"

text \<open>Lines 103 to 123: one round of the outer loop, after the check of \<open>running\<close>.\<close>

definition batch_body :: "config \<Rightarrow> environment \<Rightarrow> state \<Rightarrow> (py_error + state) option" where
  "batch_body cfg env s =
     (case send_batch cfg env (nat (JOB_BATCH_SIZE cfg)) (poll env (PyInt 0) s) of
        None \<Rightarrow> None
      | Some (Inl e) \<Rightarrow> Some (Inl e)
      | Some (Inr s') \<Rightarrow> Some (report env (poll env (PyInt 0) s')))"

text \<open>Lines 99 to 123: \<open>for _ in range(batches)\<close>, with the number of rounds left.\<close>

fun batch_loop :: "config \<Rightarrow> environment \<Rightarrow> nat \<Rightarrow> state \<Rightarrow> (py_error + state) option" where
  "batch_loop cfg env 0 s = Some (Inr s)"
| "batch_loop cfg env (Suc n) s =
     (if \<not> running s then Some (Inr s)
      else case batch_body cfg env s of
             None \<Rightarrow> None
           | Some (Inl e) \<Rightarrow> Some (Inl e)
           | Some (Inr s') \<Rightarrow> batch_loop cfg env n s')"

text \<open>Lines 126 to 128.\<close>

definition finish :: "environment \<Rightarrow> state \<Rightarrow> py_error + state" where
  "finish env s =
     (let s1 = flush env s
      in case fmt_bytes (PyInt (bytes_sent s1)) of
           Inl e \<Rightarrow> Inl e
         | Inr scaled \<Rightarrow>
             (case fmt_rate (PyFloat (last_batch_rate s1)) of
                Inl e \<Rightarrow> Inl e
              | Inr r \<Rightarrow>
                  Inr (s1\<lparr>trace := trace s1 @
                    [Stdout (''Total bytes sent: '' @ str_int (bytes_sent s1) @
                             '' ('' @ scaled @ '')''),
                     Stdout (''Last-batch throughput: '' @ r)]\<rparr>)))"

text \<open>Lines 93 and 94: the number of messages and the number of batches.\<close>

definition plan :: "config \<Rightarrow> py_error + int \<times> int" where
  "plan cfg =
     (case int_truediv (JOB_MAX_BYTES cfg) (JOB_MSG_BYTES cfg) of
        Inl e \<Rightarrow> Inl e
      | Inr x \<Rightarrow>
          (case math_ceil x of
             Inl e \<Rightarrow> Inl e
           | Inr total_messages \<Rightarrow>
               (case int_truediv total_messages (JOB_BATCH_SIZE cfg) of
                  Inl e \<Rightarrow> Inl e
                | Inr y \<Rightarrow>
                    (case math_ceil y of
                       Inl e \<Rightarrow> Inl e
                     | Inr batches \<Rightarrow> Inr (total_messages, batches)))))"

text \<open>Lines 45 to 55.\<close>

definition startup_echo :: "config \<Rightarrow> event list" where
  "startup_echo cfg =
     [Stdout (''KAFKA_BOOTSTRAP_SERVERS: '' @ KAFKA_BOOTSTRAP_SERVERS cfg),
      Stdout (''KAFKA_SECURITY_PROTOCOL: '' @ KAFKA_SECURITY_PROTOCOL cfg),
      Stdout (''KAFKA_SASL_MECHANISM   : '' @ KAFKA_SASL_MECHANISM cfg),
      Stdout (''KAFKA_SASL_USERNAME    : '' @ KAFKA_SASL_USERNAME cfg),
      Stdout (''KAFKA_SASL_PASSWORD    : '' @ KAFKA_SASL_PASSWORD cfg),
      Stdout (''JOB_TOPIC_NAME: '' @ JOB_TOPIC_NAME cfg),
      Stdout (''JOB_MSG_BYTES : '' @ str_int (JOB_MSG_BYTES cfg)),
      Stdout (''JOB_MAX_BYTES : '' @ str_int (JOB_MAX_BYTES cfg)),
      Stdout (''JOB_BATCH_SIZE: '' @ str_int (JOB_BATCH_SIZE cfg))]"

text \<open>The state before the progress bar is opened (lines 74, 75, 96, 97).\<close>

definition initial_state :: "config \<Rightarrow> environment \<Rightarrow> (string \<times> pyvalue) list \<Rightarrow> state" where
  "initial_state cfg env conf =
     \<lparr>running = True, bytes_sent = 0, last_batch_rate = Finite 0,
      start = Finite (time_time env 0),
      trace = startup_echo cfg @ [Producer_created conf],
      n_produce = 0, n_poll = 0, n_uuid = 0, n_time = 1\<rparr>"

text \<open>Lines 98 to 128: the progress bar around the outer loop, then the flush and the
  final lines.\<close>

definition send_all :: "config \<Rightarrow> environment \<Rightarrow> int \<Rightarrow> state \<Rightarrow> (py_error + state) option" where
  "send_all cfg env batches s =
     (case batch_loop cfg env (nat batches) (s\<lparr>trace := trace s @ [Tqdm_open batches]\<rparr>) of
        None \<Rightarrow> None
      | Some (Inl e) \<Rightarrow> Some (Inl e)
      | Some (Inr s1) \<Rightarrow> Some (finish env (s1\<lparr>trace := trace s1 @ [Tqdm_close]\<rparr>)))"

text \<open>Lines 43 to 128. \<open>None\<close> is a run that never ends, \<open>Inl\<close> an uncaught exception.\<close>

definition main :: "config \<Rightarrow> environment \<Rightarrow> (py_error + state) option" where
  "main cfg env =
     (case producer_config cfg of
        Inl e \<Rightarrow> Some (Inl e)
      | Inr conf \<Rightarrow>
          (case plan cfg of
             Inl e \<Rightarrow> Some (Inl e)
           | Inr (total_messages, batches) \<Rightarrow>
               send_all cfg env batches (initial_state cfg env conf)))"

section \<open>Notions used in the statements\<close>

text \<open>The bookkeeping of one call of \<open>producer.produce\<close> inside \<open>send\<close>, and the state
  after \<open>k\<close> refused calls, each followed by the poll of line 90.\<close>

definition attempt :: "environment \<Rightarrow> string \<Rightarrow> string \<Rightarrow> state \<Rightarrow> state" where
  "attempt env payload topic s =
     s\<lparr>n_uuid := n_uuid s + 1, n_produce := n_produce s + 1,
       trace := trace s @
         [Produce topic (uuid4 env (n_uuid s)) payload (produce_outcome env (n_produce s))]\<rparr>"

fun retries :: "environment \<Rightarrow> string \<Rightarrow> string \<Rightarrow> nat \<Rightarrow> state \<Rightarrow> state" where
  "retries env payload topic 0 s = s"
| "retries env payload topic (Suc k) s =
     retries env payload topic k (poll env (PyFloat backoff_seconds) (attempt env payload topic s))"

text \<open>A client that, from any call on, refuses finitely often with BufferError and then
  accepts; in particular it never raises anything else.\<close>

definition accepting :: "environment \<Rightarrow> bool" where
  "accepting env \<longleftrightarrow>
     (\<forall>n. \<exists>k. (\<forall>i<k. produce_outcome env (n + i) = BufferError) \<and>
              produce_outcome env (n + k) = Enqueued)"

text \<open>The lines the delivery callback writes for a list of reports.\<close>

fun failure_lines :: "(string option \<times> message) list \<Rightarrow> event list" where
  "failure_lines [] = []"
| "failure_lines ((None, msg) # rs) = failure_lines rs"
| "failure_lines ((Some e, msg) # rs) =
     Stderr (''Delivery failed for offset='' @ str_offset (offset msg) @
             '' error='' @ e @ [CHR 0x0A]) # failure_lines rs"

fun is_stderr :: "event \<Rightarrow> bool" where
  "is_stderr (Stderr l) = True"
| "is_stderr _ = False"

fun is_produce :: "event \<Rightarrow> bool" where
  "is_produce (Produce topic key payload r) = True"
| "is_produce _ = False"

fun is_enqueue :: "event \<Rightarrow> bool" where
  "is_enqueue (Produce topic key payload Enqueued) = True"
| "is_enqueue _ = False"

text \<open>The number of messages handed to the client, that is of completed calls of \<open>send\<close>.\<close>

definition enqueued :: "event list \<Rightarrow> nat" where
  "enqueued tr = length (filter is_enqueue tr)"

text \<open>The events that the outer loop can add: everything but the startup lines, the
  creation of the client, the opening and closing of the progress bar and the flush.\<close>

fun loop_event :: "event \<Rightarrow> bool" where
  "loop_event (Produce topic key payload r) = True"
| "loop_event (Poll timeout) = True"
| "loop_event (Stderr l) = True"
| "loop_event (Set_postfix sent tput) = True"
| "loop_event (Update n) = True"
| "loop_event _ = False"

fun is_update :: "event \<Rightarrow> bool" where
  "is_update (Update n) = True"
| "is_update _ = False"

text \<open>The number of completed rounds of the outer loop: each ends with \<open>t.update(1)\<close>.\<close>

definition rounds :: "event list \<Rightarrow> nat" where
  "rounds tr = length (filter is_update tr)"

fun is_flush :: "event \<Rightarrow> bool" where
  "is_flush Flush = True"
| "is_flush _ = False"

fun is_producer_created :: "event \<Rightarrow> bool" where
  "is_producer_created (Producer_created conf) = True"
| "is_producer_created _ = False"

text \<open>The exact ceiling of a quotient of ints.\<close>

definition ceil_div :: "int \<Rightarrow> int \<Rightarrow> int" where
  "ceil_div a b = \<lceil>rat_of_int a / rat_of_int b\<rceil>"

text \<open>A configuration whose three sizes are positive and below \<open>2 ^ 53\<close>.\<close>

definition moderate :: "config \<Rightarrow> bool" where
  "moderate cfg \<longleftrightarrow>
     0 < JOB_MAX_BYTES cfg \<and> JOB_MAX_BYTES cfg < 2 ^ 53 \<and>
     0 < JOB_MSG_BYTES cfg \<and> JOB_MSG_BYTES cfg < 2 ^ 53 \<and>
     0 < JOB_BATCH_SIZE cfg \<and> JOB_BATCH_SIZE cfg < 2 ^ 53"

subsection \<open>Concrete runs\<close>

definition example_config :: config where
  "example_config =
     \<lparr>KAFKA_BOOTSTRAP_SERVERS = ''broker:9092'', KAFKA_SECURITY_PROTOCOL = ''SASL_SSL'',
      KAFKA_SASL_MECHANISM = ''SCRAM-SHA-256'', KAFKA_SASL_USERNAME = ''user'',
      KAFKA_SASL_PASSWORD = ''secret'', JOB_TOPIC_NAME = ''topic'',
      JOB_MSG_BYTES = 300, JOB_MAX_BYTES = 1000, JOB_LINGER_MS = 100, JOB_BATCH_SIZE = 3\<rparr>"

text \<open>A client that accepts every message at once and reports no delivery.\<close>

definition example_env :: environment where
  "example_env =
     \<lparr>produce_outcome = (\<lambda>n. Enqueued), delivery_reports = (\<lambda>n. []),
      uuid4 = (\<lambda>n. ''key'' @ str_int (int n)), time_time = (\<lambda>n. of_nat n)\<rparr>"

text \<open>A client that refuses the second message twice and reports one failed and one
  successful delivery during the first backoff poll.\<close>

definition busy_env :: environment where
  "busy_env =
     \<lparr>produce_outcome = (\<lambda>n. if n = 1 \<or> n = 2 then BufferError else Enqueued),
      delivery_reports =
        (\<lambda>n. if n = 1 then [(Some ''timed out'', \<lparr>offset = Some 0\<rparr>), (None, \<lparr>offset = Some 1\<rparr>)]
              else []),
      uuid4 = (\<lambda>n. ''key'' @ str_int (int n)), time_time = (\<lambda>n. of_nat n)\<rparr>"

text \<open>A target of \<open>2 ^ 53 + 1\<close> bytes in messages of one byte.\<close>

definition large_config :: config where
  "large_config = example_config\<lparr>JOB_MSG_BYTES := 1, JOB_MAX_BYTES := 9007199254740993,
     JOB_BATCH_SIZE := 1\<rparr>"

section \<open>Rounding to binary64\<close>

lemma round_half_even_le: "q \<le> of_int K \<Longrightarrow> round_half_even q \<le> K"
  unfolding round_half_even_def Let_def
  by (auto simp: floor_le_iff) (linarith+)?

lemma round_half_even_gt: "of_int K + 1 / 2 < q \<Longrightarrow> K < round_half_even q"
  unfolding round_half_even_def Let_def
  by (auto) (linarith+)?

lemma round_half_even_ge: "of_int K \<le> q \<Longrightarrow> K \<le> round_half_even q"
  unfolding round_half_even_def Let_def
  by (auto simp: le_floor_iff) (linarith+)?

lemma round_half_even_lt: "q < of_int K - 1 / 2 \<Longrightarrow> round_half_even q < K"
  unfolding round_half_even_def Let_def
  by (auto) (linarith+)?

lemma round_half_even_of_int: "round_half_even (of_int m) = m"
  unfolding round_half_even_def Let_def by simp

lemma floor_half: "\<lfloor>rat_of_int m + 1 / 2\<rfloor> = m"
  by (simp add: floor_unique)

lemma round_half_even_tie_even: "even m \<Longrightarrow> round_half_even (of_int m + 1 / 2) = m"
  unfolding round_half_even_def Let_def floor_half by simp

lemma round_half_even_tie_odd: "odd m \<Longrightarrow> round_half_even (of_int m + 1 / 2) = m + 1"
  unfolding round_half_even_def Let_def floor_half by simp

lemma round_half_even_near: "\<bar>of_int (round_half_even q) - q\<bar> \<le> 1 / 2"
proof -
  have "of_int \<lfloor>q\<rfloor> \<le> q" "q < of_int \<lfloor>q\<rfloor> + 1" by linarith+
  then show ?thesis
    unfolding round_half_even_def Let_def by (auto simp: abs_le_iff)
qed

lemma powi2_less_iff: "(2::rat) powi a < 2 powi b \<longleftrightarrow> a < b"
proof
  assume "(2::rat) powi a < 2 powi b"
  show "a < b"
  proof (rule ccontr)
    assume "\<not> a < b"
    then have "(2::rat) powi b \<le> 2 powi a" by (intro power_int_increasing) auto
    with \<open>(2::rat) powi a < 2 powi b\<close> show False by simp
  qed
next
  assume "a < b" then show "(2::rat) powi a < 2 powi b"
    by (intro power_int_strict_increasing) auto
qed

lemma powi2_le_iff: "(2::rat) powi a \<le> 2 powi b \<longleftrightarrow> a \<le> b"
  using powi2_less_iff[of b a] by (auto simp: not_less[symmetric])

lemma powi2_add: "(2::rat) powi (a + b) = 2 powi a * 2 powi b"
  by (simp add: power_int_add)

lemma powi2_diff: "(2::rat) powi (a - b) = 2 powi a / 2 powi b"
  by (simp add: power_int_diff)

lemma bitlen_powi_bounds:
  assumes "0 < n"
  shows "(2::rat) powi (bitlen n - 1) \<le> of_int n" and "of_int n < (2::rat) powi bitlen n"
proof -
  have b: "1 \<le> bitlen n" using assms by (auto simp: bitlen_alt_def)
  have "2 ^ nat (bitlen n - 1) \<le> n" "n < 2 ^ nat (bitlen n)"
    using bitlen_bounds[OF assms] by auto
  then have "rat_of_int (2 ^ nat (bitlen n - 1)) \<le> of_int n" "rat_of_int n < of_int (2 ^ nat (bitlen n))"
    unfolding of_int_le_iff of_int_less_iff by auto
  then show "(2::rat) powi (bitlen n - 1) \<le> of_int n" "of_int n < (2::rat) powi bitlen n"
    using b by (simp_all add: power_int_nonneg_exp)
qed

lemma ilog2_bounds:
  assumes "0 < a"
  shows "2 powi ilog2 a \<le> a" and "a < 2 powi (ilog2 a + 1)"
proof -
  obtain n d where nd: "quotient_of a = (n, d)" by force
  have d: "0 < d" using quotient_of_denom_pos[OF nd] .
  have a: "a = of_int n / of_int d" using quotient_of_div[OF nd] .
  have n: "0 < n" using assms d a by (simp add: zero_less_divide_iff)
  define k where "k = bitlen n - bitlen d"
  note bn = bitlen_powi_bounds[OF n] and bd = bitlen_powi_bounds[OF d]
  have dpos: "0 < rat_of_int d" using d by simp
  have "2 powi (k - 1) = (2::rat) powi (bitlen n - 1) / 2 powi bitlen d"
    unfolding k_def by (simp add: powi2_diff)
  also have "\<dots> \<le> of_int n / 2 powi bitlen d"
    using bn(1) by (simp add: divide_right_mono)
  also have "\<dots> \<le> of_int n / of_int d"
    using bd(2) n dpos by (intro divide_left_mono) (auto simp: less_imp_le)
  finally have lo: "2 powi (k - 1) \<le> a" unfolding a .
  have "a = of_int n / of_int d" by (rule a)
  also have "\<dots> < 2 powi bitlen n / of_int d"
    using bn(2) dpos by (simp add: divide_strict_right_mono)
  also have "\<dots> \<le> 2 powi bitlen n / 2 powi (bitlen d - 1)"
    using bd(1) dpos by (intro divide_left_mono) (auto intro!: mult_pos_pos)
  also have "\<dots> = 2 powi (k + 1)"
    unfolding k_def by (simp add: powi2_diff powi2_add)
  finally have hi: "a < 2 powi (k + 1)" .
  have il: "ilog2 a = (if 2 powi k \<le> a then k else k - 1)"
    unfolding ilog2_def nd k_def by (simp add: Let_def)
  show "2 powi ilog2 a \<le> a" using lo il by auto
  show "a < 2 powi (ilog2 a + 1)" using hi il by (auto simp: not_le)
qed

lemma ilog2_eqI:
  assumes "2 powi e \<le> a" and "a < 2 powi (e + 1)"
  shows "ilog2 a = e"
proof -
  have a: "0 < a" using assms(1) by (rule less_le_trans[rotated]) simp
  note b = ilog2_bounds[OF a]
  have "(2::rat) powi e < 2 powi (ilog2 a + 1)" using assms(1) b(2) by simp
  then have 1: "e < ilog2 a + 1" by (simp add: powi2_less_iff)
  have "(2::rat) powi ilog2 a < 2 powi (e + 1)" using assms(2) b(1) by simp
  then have 2: "ilog2 a < e + 1" by (simp add: powi2_less_iff)
  show ?thesis using 1 2 by simp
qed

lemma round_half_even_eqI:
  "of_int m - 1 / 2 < q \<Longrightarrow> q < of_int m + 1 / 2 \<Longrightarrow> round_half_even q = m"
  using round_half_even_gt[of "m - 1" q] round_half_even_lt[of q "m + 1"] by simp

lemma round_to_double_pos:
  assumes "2 powi e0 \<le> q" and "q < 2 powi (e0 + 1)"
    and "e = max (e0 - 52) (- 1074)"
    and "round_half_even (q / 2 powi e) = m"
    and "rat_of_int m * 2 powi e < 2 ^ 1024"
  shows "round_to_double q = Finite (of_int m * 2 powi e)"
proof -
  have q: "0 < q" using assms(1) by (rule less_le_trans[rotated]) simp
  have il: "ilog2 q = e0" using assms(1,2) by (rule ilog2_eqI)
  have "\<bar>q\<bar> = q" "sgn q = 1" "q \<noteq> 0" using q by auto
  then show ?thesis
    unfolding round_to_double_def using assms(3,4,5) il by (simp add: Let_def)
qed

lemma round_to_double_finite:
  assumes "\<bar>q\<bar> < 2 ^ 1023"
  shows "\<exists>x. round_to_double q = Finite x"
proof (cases "q = 0")
  case True
  then show ?thesis by (simp add: round_to_double_def)
next
  case False
  define a where "a = \<bar>q\<bar>"
  define e where "e = max (ilog2 a - 52) (- 1074)"
  define r where "r = rat_of_int (round_half_even (a / 2 powi e)) * 2 powi e"
  have a: "0 < a" "a < 2 ^ 1023" using False assms by (auto simp: a_def)
  have p: "(0::rat) < 2 powi e" by simp
  have "rat_of_int (round_half_even (a / 2 powi e)) \<le> a / 2 powi e + 1 / 2"
    using round_half_even_near[of "a / 2 powi e"] by linarith
  then have "r \<le> (a / 2 powi e + 1 / 2) * 2 powi e"
    unfolding r_def using p by (simp add: mult_right_mono)
  also have "\<dots> = a + 2 powi e / 2" using p by (simp add: field_simps)
  finally have r: "r \<le> a + 2 powi e / 2" .
  have "(2::rat) powi e \<le> 2 ^ 1023"
  proof (cases "ilog2 a - 52 \<le> - 1074")
    case True
    then have "e = - 1074" by (simp add: e_def)
    then have "(2::rat) powi e \<le> 2 powi 0" by (simp only: powi2_le_iff)
    also have "\<dots> \<le> 2 ^ 1023" by simp
    finally show ?thesis .
  next
    case False
    then have "e = ilog2 a - 52" by (simp add: e_def)
    then have "(2::rat) powi e \<le> 2 powi ilog2 a" by (simp only: powi2_le_iff)
    also have "\<dots> \<le> a" using ilog2_bounds(1)[OF a(1)] .
    finally show ?thesis using a(2) by simp
  qed
  then have "r < 2 ^ 1023 + 2 ^ 1023 / 2" using r a(2) by linarith
  also have "\<dots> \<le> (2::rat) ^ 1024" by simp
  finally have "\<not> 2 ^ 1024 \<le> r" by simp
  then show ?thesis
    unfolding round_to_double_def using False
    by (simp add: Let_def a_def[symmetric] e_def[symmetric] r_def[symmetric])
qed

lemma backoff_seconds_eq: "backoff_seconds = Finite (3602879701896397 / 36028797018963968)"
proof -
  have "round_to_double (1 / 10) = Finite (of_int 7205759403792794 * 2 powi (- 56))"
    by (rule round_to_double_pos[where ?e0.0 = "- 4"])
       (simp_all add: round_half_even_eqI)
  then show ?thesis by (simp add: backoff_seconds_def)
qed

lemma min_elapsed_eq: "min_elapsed = Finite (4835703278458517 / 4835703278458516698824704)"
proof -
  have "round_to_double (1 / 10 ^ 9) = Finite (of_int 4835703278458517 * 2 powi (- 82))"
    by (rule round_to_double_pos[where ?e0.0 = "- 30"])
       (simp_all add: round_half_even_eqI)
  then show ?thesis by (simp add: min_elapsed_def)
qed

lemma round_to_double_2_53_1: "round_to_double 9007199254740993 = Finite 9007199254740992"
proof -
  have t: "round_half_even (9007199254740993 / 2) = 4503599627370496"
    using round_half_even_tie_even[of 4503599627370496] by simp
  have "round_to_double 9007199254740993 = Finite (of_int 4503599627370496 * 2 powi 1)"
    by (rule round_to_double_pos[where ?e0.0 = 53]) (simp_all add: t)
  then show ?thesis by simp
qed

lemma int_truediv_ceiling:
  assumes a: "0 < a" "a < 2 ^ 53" and b: "0 < b" "b < 2 ^ 1075"
  shows "\<exists>x. int_truediv a b = Inr (Finite x) \<and> \<lceil>x\<rceil> = \<lceil>rat_of_int a / rat_of_int b\<rceil>"
proof -
  define q where "q = rat_of_int a / rat_of_int b"
  define e where "e = max (ilog2 q - 52) (- 1074)"
  define P :: int where "P = 2 ^ nat (- e)"
  define m where "m = round_half_even (q / 2 powi e)"
  define k where "k = \<lceil>q\<rceil> - 1"
  have bpos: "0 < rat_of_int b" using b by simp
  have q: "0 < q" using a b by (simp add: q_def)
  have qb: "q * of_int b = of_int a" using b by (simp add: q_def)
  have qa: "q \<le> of_int a"
  proof -
    have "rat_of_int a / of_int b \<le> of_int a / 1"
      using a b by (intro divide_left_mono) auto
    then show ?thesis by (simp add: q_def)
  qed
  have q53: "q < 2 ^ 53"
  proof -
    have "rat_of_int a < of_int (2 ^ 53)" using a(2) unfolding of_int_less_iff .
    then show ?thesis using qa by simp
  qed
  note il = ilog2_bounds[OF q]
  have "(2::rat) powi ilog2 q < 2 powi 53" using il(1) q53 by simp
  then have il53: "ilog2 q < 53" by (simp only: powi2_less_iff)
  then have e0: "e \<le> 0" by (simp add: e_def)
  have Ppos: "0 < P" by (simp add: P_def)
  have pe: "(2::rat) powi e = 1 / of_int P"
    using e0 by (simp add: P_def power_int_def field_simps)
  have y: "q / 2 powi e = q * of_int P" by (simp add: pe)
  have k1: "of_int k < q" "q \<le> of_int k + 1"
    unfolding k_def by linarith+
  have k0: "0 \<le> k" using q unfolding k_def by simp
  \<comment> \<open>the gap between \<open>q\<close> and the integer below it is at least \<open>1 / b\<close>\<close>
  have "rat_of_int k * of_int b < q * of_int b"
    using k1(1) bpos by (rule mult_strict_right_mono)
  then have "rat_of_int (k * b) < of_int a" unfolding qb by simp
  then have "k * b + 1 \<le> a" unfolding of_int_less_iff by simp
  then have "rat_of_int (k * b + 1) \<le> of_int a" unfolding of_int_le_iff .
  then have "(rat_of_int k * of_int b + 1) / of_int b \<le> of_int a / of_int b"
    using bpos by (intro divide_right_mono) auto
  moreover have "(rat_of_int k * of_int b + 1) / of_int b = of_int k + 1 / of_int b"
    using bpos by (simp add: add_divide_distrib)
  ultimately have gap: "of_int k + 1 / of_int b \<le> q"
    by (simp add: q_def)
  \<comment> \<open>and the rounding step is finer than that\<close>
  have fine: "rat_of_int b < 2 * of_int P"
  proof (cases "ilog2 q - 52 \<le> - 1074")
    case True
    then have "e = - 1074" by (simp add: e_def)
    then have "P = 2 ^ 1074" by (simp add: P_def)
    then have "2 * P = 2 ^ 1075" by simp
    then have "b < 2 * P" using b(2) by simp
    then have "rat_of_int b < of_int (2 * P)" unfolding of_int_less_iff .
    then show ?thesis by simp
  next
    case False
    then have e: "e = ilog2 q - 52" by (simp add: e_def)
    have "(2::rat) powi ilog2 q = 2 powi e * 2 ^ 52"
      unfolding e by (simp add: powi2_diff)
    then have "2 ^ 52 / rat_of_int P \<le> q" using il(1) by (simp add: pe)
    then have "2 ^ 52 * rat_of_int b \<le> of_int a * of_int P"
      using bpos Ppos qb[symmetric] by (simp add: field_simps)
    moreover have "rat_of_int a * of_int P < 2 ^ 53 * of_int P"
    proof -
      have "rat_of_int a < of_int (2 ^ 53)" using a(2) unfolding of_int_less_iff .
      then show ?thesis using Ppos by simp
    qed
    ultimately have "2 ^ 52 * rat_of_int b < 2 ^ 52 * (2 * of_int P)" by simp
    then show ?thesis by (simp only: mult_less_cancel_left_pos zero_less_numeral zero_less_power)
  qed
  have up: "m \<le> (k + 1) * P"
  proof -
    have "q * of_int P \<le> of_int ((k + 1) * P)"
      using k1(2) Ppos by (simp add: mult_right_mono)
    then show ?thesis unfolding m_def y by (rule round_half_even_le)
  qed
  have lo: "k * P < m"
  proof -
    have "1 / 2 < rat_of_int P / of_int b" using fine bpos by (simp add: field_simps)
    also have "\<dots> = (1 / of_int b) * of_int P" by simp
    finally have "of_int k * rat_of_int P + 1 / 2 < (of_int k + 1 / of_int b) * of_int P"
      by (simp add: algebra_simps)
    also have "\<dots> \<le> q * of_int P" using gap Ppos by (simp add: mult_right_mono)
    finally have "rat_of_int (k * P) + 1 / 2 < q * of_int P" by simp
    then show ?thesis unfolding m_def y by (rule round_half_even_gt)
  qed
  define x where "x = rat_of_int m * 2 powi e"
  have x: "x = rat_of_int m / of_int P" by (simp add: x_def pe)
  have xlo: "of_int k < x"
  proof -
    have "rat_of_int (k * P) < of_int m" using lo unfolding of_int_less_iff .
    then show ?thesis using Ppos by (simp add: x field_simps)
  qed
  have xup: "x \<le> of_int k + 1"
  proof -
    have "rat_of_int m \<le> of_int ((k + 1) * P)" using up unfolding of_int_le_iff .
    then show ?thesis using Ppos by (simp add: x field_simps)
  qed
  have "of_int k + 1 \<le> rat_of_int a"
  proof -
    have "k < a" using k1(1) qa by (simp add: of_int_less_iff[where 'a = rat, symmetric] del: of_int_less_iff)
    then have "k + 1 \<le> a" by simp
    then have "rat_of_int (k + 1) \<le> of_int a" unfolding of_int_le_iff .
    then show ?thesis by simp
  qed
  moreover have "rat_of_int a < 2 ^ 53"
  proof -
    have "rat_of_int a < of_int (2 ^ 53)" using a(2) unfolding of_int_less_iff .
    then show ?thesis by simp
  qed
  ultimately have "x < 2 ^ 53" using xup by linarith
  also have "\<dots> \<le> (2::rat) ^ 1024" by simp
  finally have nov: "\<not> 2 ^ 1024 \<le> x" by simp
  have "\<bar>q\<bar> = q" "sgn q = 1" "q \<noteq> 0" using q by auto
  then have "round_to_double q = Finite x"
    unfolding round_to_double_def using nov
    by (simp add: Let_def e_def[symmetric] m_def[symmetric] x_def[symmetric])
  then have "int_truediv a b = Inr (Finite x)"
    using b by (simp add: int_truediv_def q_def[symmetric])
  moreover have "\<lceil>x\<rceil> = k + 1" using xlo xup by (intro ceiling_unique) auto
  moreover have "\<lceil>q\<rceil> = k + 1" by (simp add: k_def)
  ultimately show ?thesis unfolding q_def by simp
qed

section \<open>The program, step by step\<close>

subsection \<open>The callback, poll and flush\<close>

lemma on_delivery_cb_fields [simp]:
  "running (on_delivery_cb err msg s) = running s"
  "bytes_sent (on_delivery_cb err msg s) = bytes_sent s"
  "last_batch_rate (on_delivery_cb err msg s) = last_batch_rate s"
  "start (on_delivery_cb err msg s) = start s"
  "n_produce (on_delivery_cb err msg s) = n_produce s"
  "n_poll (on_delivery_cb err msg s) = n_poll s"
  "n_uuid (on_delivery_cb err msg s) = n_uuid s"
  "n_time (on_delivery_cb err msg s) = n_time s"
  by (simp_all add: on_delivery_cb_def split: option.split)

lemma on_delivery_cb_trace:
  "trace (on_delivery_cb err msg s) = trace s @ failure_lines [(err, msg)]"
  by (cases err) (simp_all add: on_delivery_cb_def)

lemma fold_callbacks_fields [simp]:
  "running (fold (\<lambda>(err, msg). on_delivery_cb err msg) rs s) = running s"
  "bytes_sent (fold (\<lambda>(err, msg). on_delivery_cb err msg) rs s) = bytes_sent s"
  "last_batch_rate (fold (\<lambda>(err, msg). on_delivery_cb err msg) rs s) = last_batch_rate s"
  "start (fold (\<lambda>(err, msg). on_delivery_cb err msg) rs s) = start s"
  "n_produce (fold (\<lambda>(err, msg). on_delivery_cb err msg) rs s) = n_produce s"
  "n_poll (fold (\<lambda>(err, msg). on_delivery_cb err msg) rs s) = n_poll s"
  "n_uuid (fold (\<lambda>(err, msg). on_delivery_cb err msg) rs s) = n_uuid s"
  "n_time (fold (\<lambda>(err, msg). on_delivery_cb err msg) rs s) = n_time s"
  by (induction rs arbitrary: s; simp add: split_beta)+

lemma failure_lines_append: "failure_lines (xs @ ys) = failure_lines xs @ failure_lines ys"
  by (induction xs rule: failure_lines.induct) simp_all

lemma fold_callbacks_trace:
  "trace (fold (\<lambda>(err, msg). on_delivery_cb err msg) rs s) = trace s @ failure_lines rs"
proof (induction rs arbitrary: s)
  case Nil
  show ?case by simp
next
  case (Cons r rs)
  obtain err msg where r: "r = (err, msg)" by (cases r)
  show ?case
    using failure_lines_append[of "[(err, msg)]" rs]
    by (simp add: r Cons.IH on_delivery_cb_trace)
qed

lemma poll_fields [simp]:
  "running (poll env t s) = running s"
  "bytes_sent (poll env t s) = bytes_sent s"
  "last_batch_rate (poll env t s) = last_batch_rate s"
  "start (poll env t s) = start s"
  "n_produce (poll env t s) = n_produce s"
  "n_poll (poll env t s) = n_poll s + 1"
  "n_uuid (poll env t s) = n_uuid s"
  "n_time (poll env t s) = n_time s"
  by (simp_all add: poll_def serve_callbacks_def)

lemma poll_trace:
  "trace (poll env t s) = trace s @ Poll t # failure_lines (delivery_reports env (n_poll s))"
  by (simp add: poll_def serve_callbacks_def fold_callbacks_trace)

lemma flush_fields [simp]:
  "running (flush env s) = running s"
  "bytes_sent (flush env s) = bytes_sent s"
  "last_batch_rate (flush env s) = last_batch_rate s"
  "start (flush env s) = start s"
  "n_produce (flush env s) = n_produce s"
  "n_poll (flush env s) = n_poll s + 1"
  "n_uuid (flush env s) = n_uuid s"
  "n_time (flush env s) = n_time s"
  by (simp_all add: flush_def serve_callbacks_def)

lemma flush_trace:
  "trace (flush env s) = trace s @ Flush # failure_lines (delivery_reports env (n_poll s))"
  by (simp add: flush_def serve_callbacks_def fold_callbacks_trace)

subsection \<open>The send loop\<close>

lemma attempt_fields [simp]:
  "running (attempt env p t s) = running s"
  "bytes_sent (attempt env p t s) = bytes_sent s"
  "last_batch_rate (attempt env p t s) = last_batch_rate s"
  "start (attempt env p t s) = start s"
  "n_produce (attempt env p t s) = n_produce s + 1"
  "n_poll (attempt env p t s) = n_poll s"
  "n_uuid (attempt env p t s) = n_uuid s + 1"
  "n_time (attempt env p t s) = n_time s"
  by (simp_all add: attempt_def)

lemma send_unfold:
  "send env p t s =
     (case produce_outcome env (n_produce s) of
        Enqueued \<Rightarrow> Some (Inr (attempt env p t s))
      | BufferError \<Rightarrow> send env p t (poll env (PyFloat backoff_seconds) (attempt env p t s))
      | Raised e \<Rightarrow> Some (Inl (KafkaException e)))"
  by (subst send.simps) (simp add: Let_def attempt_def split: produce_result.split)

lemma retries_fields [simp]:
  "running (retries env p t k s) = running s"
  "bytes_sent (retries env p t k s) = bytes_sent s"
  "last_batch_rate (retries env p t k s) = last_batch_rate s"
  "start (retries env p t k s) = start s"
  "n_produce (retries env p t k s) = n_produce s + k"
  "n_poll (retries env p t k s) = n_poll s + k"
  "n_uuid (retries env p t k s) = n_uuid s + k"
  "n_time (retries env p t k s) = n_time s"
  by (induction k arbitrary: s; simp)+

lemma send_retries:
  assumes "\<forall>i<k. produce_outcome env (n_produce s + i) = BufferError"
    and "produce_outcome env (n_produce s + k) = Enqueued"
  shows "send env p t s = Some (Inr (attempt env p t (retries env p t k s)))"
  using assms
proof (induction k arbitrary: s)
  case 0
  then show ?case by (subst send_unfold) simp
next
  case (Suc k)
  let ?s = "poll env (PyFloat backoff_seconds) (attempt env p t s)"
  have 0: "produce_outcome env (n_produce s) = BufferError" using Suc.prems(1) by force
  have "\<forall>i<k. produce_outcome env (n_produce ?s + i) = BufferError"
    using Suc.prems(1) by (auto dest: spec[where x = "Suc i" for i])
  moreover have "produce_outcome env (n_produce ?s + k) = Enqueued"
    using Suc.prems(2) by simp
  ultimately have "send env p t ?s = Some (Inr (attempt env p t (retries env p t k ?s)))"
    by (rule Suc.IH)
  then show ?case by (subst send_unfold) (simp add: 0)
qed

lemma send_result:
  "send env p t s = Some r \<Longrightarrow> r = Inr s' \<Longrightarrow>
     \<exists>k. (\<forall>i<k. produce_outcome env (n_produce s + i) = BufferError) \<and>
         produce_outcome env (n_produce s + k) = Enqueued \<and>
         s' = attempt env p t (retries env p t k s)"
proof (induction arbitrary: s' rule: send.raw_induct[rotated 1, consumes 1])
  case (1 send env p t s y)
  show ?case
  proof (cases "produce_outcome env (n_produce s)")
    case Enqueued
    then have "s' = attempt env p t s" using 1(2,3) by (simp add: Let_def attempt_def)
    then show ?thesis using Enqueued by (intro exI[of _ 0]) simp
  next
    case BufferError
    let ?s = "poll env (PyFloat backoff_seconds) (attempt env p t s)"
    have "send env p t ?s = Some y" using 1(2) BufferError by (simp add: Let_def attempt_def)
    from 1(1)[OF this 1(3)] obtain k where k:
      "\<forall>i<k. produce_outcome env (n_produce ?s + i) = BufferError"
      "produce_outcome env (n_produce ?s + k) = Enqueued"
      "s' = attempt env p t (retries env p t k ?s)" by blast
    have "\<forall>i<Suc k. produce_outcome env (n_produce s + i) = BufferError"
    proof (intro allI impI)
      fix i assume "i < Suc k"
      then show "produce_outcome env (n_produce s + i) = BufferError"
        using k(1) BufferError by (cases i) auto
    qed
    then show ?thesis using k(2,3) by (intro exI[of _ "Suc k"]) simp
  next
    case (Raised e)
    then show ?thesis using 1(2,3) by (simp add: Let_def)
  qed
qed

lemma enqueued_append [simp]: "enqueued (xs @ ys) = enqueued xs + enqueued ys"
  by (simp add: enqueued_def)

lemma rounds_append [simp]: "rounds (xs @ ys) = rounds xs + rounds ys"
  by (simp add: rounds_def)

lemma failure_lines_props [simp]:
  "list_all loop_event (failure_lines rs)"
  "enqueued (failure_lines rs) = 0"
  "rounds (failure_lines rs) = 0"
  "filter is_produce (failure_lines rs) = []"
  "filter (\<lambda>e. \<not> is_stderr e) (failure_lines rs) = []"
  "filter is_stderr (failure_lines rs) = failure_lines rs"
  by (induction rs rule: failure_lines.induct; simp add: enqueued_def rounds_def)+

text \<open>What \<open>k\<close> refused calls add to the trace.\<close>

lemma upt_shift: "[0..<Suc k] = 0 # map Suc [0..<k]"
  by (simp add: upt_conv_Cons map_Suc_upt del: upt_Suc)

lemma retries_trace:
  "trace (retries env p t k s) = trace s @
     concat (map (\<lambda>i. Produce t (uuid4 env (n_uuid s + i)) p (produce_outcome env (n_produce s + i)) #
                       Poll (PyFloat backoff_seconds) #
                       failure_lines (delivery_reports env (n_poll s + i))) [0..<k])"
proof (induction k arbitrary: s)
  case 0
  show ?case by simp
next
  case (Suc k)
  show ?case
    unfolding upt_shift retries.simps Suc.IH
    by (simp add: poll_trace attempt_def comp_def del: upt_Suc)
qed

lemma enqueued_simps [simp]:
  "enqueued [] = 0"
  "enqueued (e # es) = (if is_enqueue e then 1 else 0) + enqueued es"
  by (simp_all add: enqueued_def)

lemma rounds_simps [simp]:
  "rounds [] = 0"
  "rounds (e # es) = (if is_update e then 1 else 0) + rounds es"
  by (simp_all add: rounds_def)

lemma attempt_trace:
  "trace (attempt env p t s) = trace s @
     [Produce t (uuid4 env (n_uuid s)) p (produce_outcome env (n_produce s))]"
  by (simp add: attempt_def)

lemma refused_events:
  assumes "\<forall>i<k. produce_outcome env (n + i) = BufferError"
  shows "list_all loop_event (concat (map (\<lambda>i. Produce t (u i) p (produce_outcome env (n + i)) #
            Poll x # failure_lines (r i)) [0..<k])) \<and>
    enqueued (concat (map (\<lambda>i. Produce t (u i) p (produce_outcome env (n + i)) #
            Poll x # failure_lines (r i)) [0..<k])) = 0 \<and>
    rounds (concat (map (\<lambda>i. Produce t (u i) p (produce_outcome env (n + i)) #
            Poll x # failure_lines (r i)) [0..<k])) = 0"
  using assms
proof (induction k)
  case 0
  show ?case by simp
next
  case (Suc k)
  then have "produce_outcome env (n + k) = BufferError" by simp
  then show ?case using Suc by simp
qed

lemma send_effect:
  assumes "send env p t s = Some (Inr s')"
  shows "running s' = running s" "bytes_sent s' = bytes_sent s"
    "last_batch_rate s' = last_batch_rate s" "start s' = start s" "n_time s' = n_time s"
    "\<exists>ext. trace s' = trace s @ ext \<and> list_all loop_event ext \<and> enqueued ext = 1 \<and> rounds ext = 0"
proof -
  from send_result[OF assms refl] obtain k where k:
    "\<forall>i<k. produce_outcome env (n_produce s + i) = BufferError"
    "produce_outcome env (n_produce s + k) = Enqueued"
    "s' = attempt env p t (retries env p t k s)" by blast
  show "running s' = running s" "bytes_sent s' = bytes_sent s"
    "last_batch_rate s' = last_batch_rate s" "start s' = start s" "n_time s' = n_time s"
    by (simp_all add: k(3))
  let ?ext = "concat (map (\<lambda>i. Produce t (uuid4 env (n_uuid s + i)) p
                 (produce_outcome env (n_produce s + i)) #
               Poll (PyFloat backoff_seconds) #
               failure_lines (delivery_reports env (n_poll s + i))) [0..<k]) @
             [Produce t (uuid4 env (n_uuid s + k)) p Enqueued]"
  have "trace s' = trace s @ ?ext"
    by (simp add: k(2,3) attempt_trace retries_trace)
  moreover have "list_all loop_event ?ext \<and> enqueued ?ext = 1 \<and> rounds ?ext = 0"
    using refused_events[OF k(1)] by simp
  ultimately show "\<exists>ext. trace s' = trace s @ ext \<and> list_all loop_event ext \<and>
      enqueued ext = 1 \<and> rounds ext = 0"
    by blast
qed

lemma send_total:
  assumes "accepting env"
  shows "\<exists>s'. send env p t s = Some (Inr s')"
proof -
  from assms obtain k where "\<forall>i<k. produce_outcome env (n_produce s + i) = BufferError"
    "produce_outcome env (n_produce s + k) = Enqueued"
    unfolding accepting_def by blast
  then show ?thesis using send_retries by blast
qed

subsection \<open>The report after a batch\<close>

lemma float_truediv_1024: "\<exists>y. float_truediv x (Finite 1024) = Inr y"
  by (cases x) simp_all

lemma fmt_loop_float: "\<exists>t. fmt_loop d units final (PyFloat x) = Inr t"
proof (induction units arbitrary: x)
  case Nil
  show ?case by simp
next
  case (Cons u units)
  obtain y where "float_truediv x (Finite 1024) = Inr y" using float_truediv_1024 by blast
  then show ?case using Cons[of y] by simp
qed

lemma float_of_int_finite:
  assumes "\<bar>n\<bar> < 2 ^ 1023"
  shows "\<exists>q. float_of_int n = Inr (Finite q)"
proof -
  have "rat_of_int \<bar>n\<bar> < of_int (2 ^ 1023)" using assms unfolding of_int_less_iff .
  then have "\<bar>rat_of_int n\<bar> < 2 ^ 1023" by simp
  from round_to_double_finite[OF this] show ?thesis by (auto simp: float_of_int_def)
qed

lemma fmt_loop_int:
  assumes "\<bar>n\<bar> < 2 ^ 1023"
  shows "\<exists>t. fmt_loop d units final (PyInt n) = Inr t"
proof -
  obtain q where q: "float_of_int n = Inr (Finite q)" using float_of_int_finite[OF assms] by blast
  show ?thesis
  proof (cases units)
    case Nil
    then show ?thesis by (simp add: q)
  next
    case (Cons u us)
    show ?thesis by (simp add: Cons q fmt_loop_float)
  qed
qed

lemma elapsed_divides: "\<exists>y. float_truediv x (float_max d min_elapsed) = Inr y"
proof (cases d)
  case (Finite v)
  then show ?thesis by (cases x) (auto simp: float_max_def min_elapsed_eq)
qed (cases x; simp add: float_max_def min_elapsed_eq)+

lemma report_total:
  assumes "\<bar>bytes_sent s\<bar> < 2 ^ 1023"
  shows "\<exists>s'. report env s = Inr s'"
proof -
  let ?el = "float_max (float_sub (Finite (time_time env (n_time s))) (start s)) min_elapsed"
  obtain q where q: "float_of_int (bytes_sent s) = Inr (Finite q)"
    using float_of_int_finite[OF assms] by blast
  obtain rate where r: "float_truediv (Finite q) ?el = Inr rate" using elapsed_divides by blast
  obtain sent where s: "fmt_bytes (PyInt (bytes_sent s)) = Inr sent"
    using fmt_loop_int[OF assms] unfolding fmt_bytes_def by blast
  obtain tput where t: "fmt_rate (PyFloat rate) = Inr tput"
    using fmt_loop_float unfolding fmt_rate_def by blast
  show ?thesis by (simp add: report_def Let_def q r s t)
qed

lemma report_effect:
  assumes "report env s = Inr s'"
  shows "running s' = running s" "bytes_sent s' = bytes_sent s"
    "last_batch_rate s' = last_batch_rate s" "start s' = start s"
    "n_produce s' = n_produce s" "n_poll s' = n_poll s"
    "\<exists>sent tput. trace s' = trace s @ [Set_postfix sent tput, Update 1]"
  using assms
  by (auto simp: report_def Let_def split: sum.splits)

subsection \<open>The inner loop\<close>

lemma send_batch_effect:
  assumes "send_batch cfg env n s = Some (Inr s')"
  shows "running s' = running s \<and> bytes_sent s' = bytes_sent s + int n * JOB_MSG_BYTES cfg \<and>
    last_batch_rate s' = last_batch_rate s \<and> start s' = start s \<and> n_time s' = n_time s \<and>
    (\<exists>ext. trace s' = trace s @ ext \<and> list_all loop_event ext \<and> enqueued ext = n \<and>
       rounds ext = 0)"
  using assms
proof (induction n arbitrary: s)
  case 0
  then show ?case by simp
next
  case (Suc n)
  from Suc.prems obtain s1 where s1: "send env (MESSAGE cfg) (JOB_TOPIC_NAME cfg) s = Some (Inr s1)"
    and rest: "send_batch cfg env n (s1\<lparr>bytes_sent := bytes_sent s1 + JOB_MSG_BYTES cfg\<rparr>) = Some (Inr s')"
    by (auto split: option.splits sum.splits)
  note e1 = send_effect[OF s1]
  from e1(6) obtain ext1 where ext1: "trace s1 = trace s @ ext1" "list_all loop_event ext1"
    "enqueued ext1 = 1" "rounds ext1 = 0" by blast
  from Suc.IH[OF rest] obtain ext2 where ih:
    "running s' = running s1" "bytes_sent s' = bytes_sent s1 + JOB_MSG_BYTES cfg + int n * JOB_MSG_BYTES cfg"
    "last_batch_rate s' = last_batch_rate s1" "start s' = start s1" "n_time s' = n_time s1"
    "trace s' = trace s1 @ ext2" "list_all loop_event ext2" "enqueued ext2 = n" "rounds ext2 = 0"
    by auto
  have "trace s' = trace s @ (ext1 @ ext2)" by (simp add: ih(6) ext1(1))
  moreover have "list_all loop_event (ext1 @ ext2)" "enqueued (ext1 @ ext2) = Suc n"
    "rounds (ext1 @ ext2) = 0"
    using ext1 ih by simp_all
  ultimately have "\<exists>ext. trace s' = trace s @ ext \<and> list_all loop_event ext \<and>
      enqueued ext = Suc n \<and> rounds ext = 0" by blast
  then show ?case using e1(1-5) ih(1-5) by (simp add: algebra_simps)
qed

lemma send_batch_total:
  assumes "accepting env"
  shows "\<exists>s'. send_batch cfg env n s = Some (Inr s')"
proof (induction n arbitrary: s)
  case 0
  show ?case by simp
next
  case (Suc n)
  obtain s1 where s1: "send env (MESSAGE cfg) (JOB_TOPIC_NAME cfg) s = Some (Inr s1)"
    using send_total[OF assms] by blast
  show ?case using Suc[of "s1\<lparr>bytes_sent := bytes_sent s1 + JOB_MSG_BYTES cfg\<rparr>"] by (simp add: s1)
qed

subsection \<open>One round of the outer loop\<close>

lemma batch_body_effect:
  assumes "batch_body cfg env s = Some (Inr s')"
  shows "running s' = running s \<and>
    bytes_sent s' = bytes_sent s + int (nat (JOB_BATCH_SIZE cfg)) * JOB_MSG_BYTES cfg \<and>
    last_batch_rate s' = last_batch_rate s \<and> start s' = start s \<and>
    (\<exists>ext. trace s' = trace s @ ext \<and> list_all loop_event ext \<and>
       enqueued ext = nat (JOB_BATCH_SIZE cfg) \<and> rounds ext = 1)"
proof -
  let ?s0 = "poll env (PyInt 0) s"
  from assms obtain s1 where s1: "send_batch cfg env (nat (JOB_BATCH_SIZE cfg)) ?s0 = Some (Inr s1)"
    and r: "report env (poll env (PyInt 0) s1) = Inr s'"
    by (auto simp: batch_body_def split: option.splits sum.splits)
  from send_batch_effect[OF s1] obtain ext1 where e1:
    "running s1 = running s" "bytes_sent s1 = bytes_sent s + int (nat (JOB_BATCH_SIZE cfg)) * JOB_MSG_BYTES cfg"
    "last_batch_rate s1 = last_batch_rate s" "start s1 = start s"
    "trace s1 = trace ?s0 @ ext1" "list_all loop_event ext1"
    "enqueued ext1 = nat (JOB_BATCH_SIZE cfg)" "rounds ext1 = 0"
    by auto
  note e2 = report_effect[OF r]
  from e2(7) obtain sent tput where tr: "trace s' = trace (poll env (PyInt 0) s1) @ [Set_postfix sent tput, Update 1]"
    by blast
  let ?ext = "(Poll (PyInt 0) # failure_lines (delivery_reports env (n_poll s))) @ ext1 @
     (Poll (PyInt 0) # failure_lines (delivery_reports env (n_poll s1))) @ [Set_postfix sent tput, Update 1]"
  have "trace s' = trace s @ ?ext" by (simp add: tr poll_trace e1(5))
  moreover have "list_all loop_event ?ext" "enqueued ?ext = nat (JOB_BATCH_SIZE cfg)" "rounds ?ext = 1"
    using e1(6-8) by simp_all
  ultimately have "\<exists>ext. trace s' = trace s @ ext \<and> list_all loop_event ext \<and>
       enqueued ext = nat (JOB_BATCH_SIZE cfg) \<and> rounds ext = 1" by blast
  then show ?thesis using e1(1-4) e2(1-4) by simp
qed

lemma batch_body_total:
  assumes "accepting env"
    and "\<bar>bytes_sent s + int (nat (JOB_BATCH_SIZE cfg)) * JOB_MSG_BYTES cfg\<bar> < 2 ^ 1023"
  shows "\<exists>s'. batch_body cfg env s = Some (Inr s')"
proof -
  obtain s1 where s1: "send_batch cfg env (nat (JOB_BATCH_SIZE cfg)) (poll env (PyInt 0) s) = Some (Inr s1)"
    using send_batch_total[OF assms(1)] by blast
  have "bytes_sent (poll env (PyInt 0) s1) =
      bytes_sent s + int (nat (JOB_BATCH_SIZE cfg)) * JOB_MSG_BYTES cfg"
    using send_batch_effect[OF s1] by simp
  then obtain s' where "report env (poll env (PyInt 0) s1) = Inr s'"
    using report_total[of "poll env (PyInt 0) s1" env] assms(2) by auto
  then show ?thesis by (simp add: batch_body_def s1)
qed

subsection \<open>The outer loop\<close>

lemma batch_loop_stopped: "\<not> running s \<Longrightarrow> batch_loop cfg env n s = Some (Inr s)"
  by (cases n) simp_all

lemma batch_loop_effect:
  assumes "batch_loop cfg env n s = Some (Inr s')"
  shows "running s' = running s \<and> last_batch_rate s' = last_batch_rate s \<and> start s' = start s \<and>
    (\<exists>ext. trace s' = trace s @ ext \<and> list_all loop_event ext \<and>
       bytes_sent s' = bytes_sent s + int (enqueued ext) * JOB_MSG_BYTES cfg \<and>
       enqueued ext = rounds ext * nat (JOB_BATCH_SIZE cfg) \<and>
       rounds ext = (if running s then n else 0))"
  using assms
proof (induction n arbitrary: s)
  case 0
  then have "s' = s" by simp
  then show ?case by simp
next
  case (Suc n)
  show ?case
  proof (cases "running s")
    case False
    then have "s' = s" using Suc.prems by simp
    then show ?thesis using False by simp
  next
    case True
    from Suc.prems True obtain s1 where s1: "batch_body cfg env s = Some (Inr s1)"
      and rest: "batch_loop cfg env n s1 = Some (Inr s')"
      by (auto split: option.splits sum.splits)
    from batch_body_effect[OF s1] obtain ext1 where e1:
      "running s1 = running s"
      "bytes_sent s1 = bytes_sent s + int (nat (JOB_BATCH_SIZE cfg)) * JOB_MSG_BYTES cfg"
      "last_batch_rate s1 = last_batch_rate s" "start s1 = start s"
      "trace s1 = trace s @ ext1" "list_all loop_event ext1"
      "enqueued ext1 = nat (JOB_BATCH_SIZE cfg)" "rounds ext1 = 1"
      by auto
    from Suc.IH[OF rest] obtain ext2 where e2:
      "running s' = running s1" "last_batch_rate s' = last_batch_rate s1" "start s' = start s1"
      "trace s' = trace s1 @ ext2" "list_all loop_event ext2"
      "bytes_sent s' = bytes_sent s1 + int (enqueued ext2) * JOB_MSG_BYTES cfg"
      "enqueued ext2 = rounds ext2 * nat (JOB_BATCH_SIZE cfg)"
      "rounds ext2 = (if running s1 then n else 0)"
      by auto
    have "trace s' = trace s @ (ext1 @ ext2)" by (simp add: e1(5) e2(4))
    moreover have "list_all loop_event (ext1 @ ext2)" using e1(6) e2(5) by simp
    moreover have "bytes_sent s' = bytes_sent s + int (enqueued (ext1 @ ext2)) * JOB_MSG_BYTES cfg"
      by (simp add: e2(6) e1(2,7) algebra_simps)
    moreover have "enqueued (ext1 @ ext2) = rounds (ext1 @ ext2) * nat (JOB_BATCH_SIZE cfg)"
      by (simp add: e1(7,8) e2(7))
    moreover have "rounds (ext1 @ ext2) = Suc n" using e1(1,8) e2(8) True by simp
    ultimately have "\<exists>ext. trace s' = trace s @ ext \<and> list_all loop_event ext \<and>
       bytes_sent s' = bytes_sent s + int (enqueued ext) * JOB_MSG_BYTES cfg \<and>
       enqueued ext = rounds ext * nat (JOB_BATCH_SIZE cfg) \<and>
       rounds ext = Suc n" by blast
    then show ?thesis using True e1(1,3,4) e2(1,2,3) by simp
  qed
qed

lemma batch_loop_total:
  assumes "accepting env" and "0 \<le> JOB_MSG_BYTES cfg" and "0 \<le> bytes_sent s"
    and "bytes_sent s + int n * (int (nat (JOB_BATCH_SIZE cfg)) * JOB_MSG_BYTES cfg) < 2 ^ 1023"
  shows "\<exists>s'. batch_loop cfg env n s = Some (Inr s')"
  using assms(3,4)
proof (induction n arbitrary: s)
  case 0
  show ?case by simp
next
  case (Suc n)
  let ?d = "int (nat (JOB_BATCH_SIZE cfg)) * JOB_MSG_BYTES cfg"
  have d: "0 \<le> ?d" using assms(2) by simp
  have nd: "0 \<le> int n * ?d" using d by simp
  show ?case
  proof (cases "running s")
    case False
    then show ?thesis by simp
  next
    case True
    have "bytes_sent s + int (Suc n) * ?d = bytes_sent s + ?d + int n * ?d"
      by (simp add: algebra_simps)
    then have b: "bytes_sent s + ?d + int n * ?d < 2 ^ 1023" using Suc.prems(2) by simp
    then have "\<bar>bytes_sent s + ?d\<bar> < 2 ^ 1023" using Suc.prems(1) d nd by linarith
    from batch_body_total[OF assms(1) this] obtain s1 where
      s1: "batch_body cfg env s = Some (Inr s1)" by blast
    have b1: "bytes_sent s1 = bytes_sent s + ?d" using batch_body_effect[OF s1] by simp
    have "\<exists>s'. batch_loop cfg env n s1 = Some (Inr s')"
      using Suc.prems(1) d b by (intro Suc.IH) (simp_all add: b1)
    then show ?thesis using True by (simp add: s1)
  qed
qed

subsection \<open>After the loop\<close>

lemma finish_effect:
  assumes "finish env s = Inr s'"
  shows "running s' = running s \<and> bytes_sent s' = bytes_sent s \<and>
    (\<exists>scaled r. fmt_bytes (PyInt (bytes_sent s)) = Inr scaled \<and>
       trace s' = trace s @ Flush # failure_lines (delivery_reports env (n_poll s)) @
         [Stdout (''Total bytes sent: '' @ str_int (bytes_sent s) @ '' ('' @ scaled @ '')''),
          Stdout (''Last-batch throughput: '' @ r)])"
  using assms
  by (auto simp: finish_def Let_def flush_trace split: sum.splits)

lemma finish_total:
  assumes "\<bar>bytes_sent s\<bar> < 2 ^ 1023"
  shows "\<exists>s'. finish env s = Inr s'"
proof -
  obtain scaled where s: "fmt_bytes (PyInt (bytes_sent s)) = Inr scaled"
    using fmt_loop_int[OF assms] unfolding fmt_bytes_def by blast
  obtain r where r: "fmt_rate (PyFloat (last_batch_rate s)) = Inr r"
    using fmt_loop_float unfolding fmt_rate_def by blast
  show ?thesis by (simp add: finish_def Let_def s r)
qed

subsection \<open>The plan and the whole run\<close>

lemma ceil_div_bounds:
  assumes "0 < a" and "0 < b"
  shows "0 < ceil_div a b" and "ceil_div a b \<le> a"
proof -
  have q: "0 < rat_of_int a / rat_of_int b" using assms by simp
  then show "0 < ceil_div a b" unfolding ceil_div_def by simp
  have "rat_of_int a / rat_of_int b \<le> of_int a / 1"
    using assms by (intro divide_left_mono) auto
  then have "rat_of_int a / rat_of_int b \<le> of_int a" by simp
  then show "ceil_div a b \<le> a" unfolding ceil_div_def by (simp add: ceiling_le_iff)
qed

lemma plan_exact:
  assumes "moderate cfg"
  shows "plan cfg = Inr (ceil_div (JOB_MAX_BYTES cfg) (JOB_MSG_BYTES cfg),
           ceil_div (ceil_div (JOB_MAX_BYTES cfg) (JOB_MSG_BYTES cfg)) (JOB_BATCH_SIZE cfg))"
proof -
  let ?T = "JOB_MAX_BYTES cfg" and ?M = "JOB_MSG_BYTES cfg" and ?B = "JOB_BATCH_SIZE cfg"
  have m: "0 < ?T" "?T < 2 ^ 53" "0 < ?M" "?M < 2 ^ 53" "0 < ?B" "?B < 2 ^ 53"
    using assms by (simp_all add: moderate_def)
  have big: "(2::int) ^ 53 < 2 ^ 1075" by simp
  obtain x where x: "int_truediv ?T ?M = Inr (Finite x)" "\<lceil>x\<rceil> = ceil_div ?T ?M"
    using int_truediv_ceiling[OF m(1,2,3)] m(4) big unfolding ceil_div_def by force
  have tm: "0 < ceil_div ?T ?M" "ceil_div ?T ?M < 2 ^ 53"
    using ceil_div_bounds[OF m(1,3)] m(2) by simp_all
  obtain y where y: "int_truediv (ceil_div ?T ?M) ?B = Inr (Finite y)"
      "\<lceil>y\<rceil> = ceil_div (ceil_div ?T ?M) ?B"
    using int_truediv_ceiling[OF tm m(5)] m(6) big unfolding ceil_div_def by force
  show ?thesis by (simp add: plan_def x y)
qed

lemma producer_config_total:
  assumes "moderate cfg"
  shows "\<exists>conf. producer_config cfg = Inr conf"
proof -
  let ?M = "JOB_MSG_BYTES cfg" and ?B = "JOB_BATCH_SIZE cfg"
  have m: "0 < ?M" "?M < 2 ^ 53" "0 < ?B" "?B < 2 ^ 53"
    using assms by (simp_all add: moderate_def)
  have "?M * ?B < 2 ^ 53 * 2 ^ 53" using m by (intro mult_strict_mono) auto
  then have "?M * ?B < 2 ^ 1023" by simp
  then have "rat_of_int (?M * ?B) < of_int (2 ^ 1023)" unfolding of_int_less_iff .
  moreover have "0 \<le> rat_of_int (?M * ?B)" using m by simp
  moreover have "rat_of_int (?M * ?B) / 1024 \<le> rat_of_int (?M * ?B)" using m by simp
  ultimately have "\<bar>rat_of_int (?M * ?B) / 1024\<bar> < 2 ^ 1023" by simp
  from round_to_double_finite[OF this] obtain q where
    "round_to_double (rat_of_int (?M * ?B) / 1024) = Finite q" by blast
  then show ?thesis by (simp add: producer_config_def int_truediv_def)
qed

lemma moderate_volume:
  assumes "moderate cfg"
  shows "0 \<le> ceil_div (ceil_div (JOB_MAX_BYTES cfg) (JOB_MSG_BYTES cfg)) (JOB_BATCH_SIZE cfg) *
           JOB_BATCH_SIZE cfg * JOB_MSG_BYTES cfg"
    and "ceil_div (ceil_div (JOB_MAX_BYTES cfg) (JOB_MSG_BYTES cfg)) (JOB_BATCH_SIZE cfg) *
           JOB_BATCH_SIZE cfg * JOB_MSG_BYTES cfg < 2 ^ 1023"
proof -
  let ?T = "JOB_MAX_BYTES cfg" and ?M = "JOB_MSG_BYTES cfg" and ?B = "JOB_BATCH_SIZE cfg"
  let ?nb = "ceil_div (ceil_div ?T ?M) ?B"
  have m: "0 < ?T" "?T < 2 ^ 53" "0 < ?M" "?M < 2 ^ 53" "0 < ?B" "?B < 2 ^ 53"
    using assms by (simp_all add: moderate_def)
  have tm: "0 < ceil_div ?T ?M" "ceil_div ?T ?M < 2 ^ 53"
    using ceil_div_bounds[OF m(1,3)] m(2) by simp_all
  have nb: "0 < ?nb" "?nb < 2 ^ 53"
    using ceil_div_bounds[OF tm(1) m(5)] tm(2) by simp_all
  show "0 \<le> ?nb * ?B * ?M" using nb m by simp
  define P where "P = ?nb * ?B"
  have "P < 2 ^ 53 * 2 ^ 53" unfolding P_def using nb m by (intro mult_strict_mono) auto
  moreover have "0 < P" unfolding P_def using nb m by simp
  ultimately have "P * ?M < (2 ^ 53 * 2 ^ 53) * 2 ^ 53"
    using m(3,4) by (intro mult_strict_mono) auto
  then show "?nb * ?B * ?M < 2 ^ 1023" unfolding P_def by simp
qed

lemma send_all_effect:
  assumes "send_all cfg env batches s = Some (Inr s')"
  shows "running s' = running s \<and>
    (\<exists>ext reports scaled r.
       trace s' = trace s @ Tqdm_open batches # ext @ Tqdm_close # Flush # failure_lines reports @
         [Stdout (''Total bytes sent: '' @ str_int (bytes_sent s') @ '' ('' @ scaled @ '')''),
          Stdout (''Last-batch throughput: '' @ r)] \<and>
       list_all loop_event ext \<and>
       fmt_bytes (PyInt (bytes_sent s')) = Inr scaled \<and>
       bytes_sent s' = bytes_sent s + int (enqueued ext) * JOB_MSG_BYTES cfg \<and>
       enqueued ext = rounds ext * nat (JOB_BATCH_SIZE cfg) \<and>
       rounds ext = (if running s then nat batches else 0))"
proof -
  let ?s0 = "s\<lparr>trace := trace s @ [Tqdm_open batches]\<rparr>"
  from assms obtain s1 where s1: "batch_loop cfg env (nat batches) ?s0 = Some (Inr s1)"
    and f: "finish env (s1\<lparr>trace := trace s1 @ [Tqdm_close]\<rparr>) = Inr s'"
    by (auto simp: send_all_def split: option.splits sum.splits)
  from batch_loop_effect[OF s1] obtain ext where e:
    "running s1 = running s" "trace s1 = trace s @ Tqdm_open batches # ext"
    "list_all loop_event ext"
    "bytes_sent s1 = bytes_sent s + int (enqueued ext) * JOB_MSG_BYTES cfg"
    "enqueued ext = rounds ext * nat (JOB_BATCH_SIZE cfg)"
    "rounds ext = (if running s then nat batches else 0)"
    by auto
  from finish_effect[OF f] obtain scaled r where g:
    "running s' = running s1" "bytes_sent s' = bytes_sent s1"
    "fmt_bytes (PyInt (bytes_sent s1)) = Inr scaled"
    "trace s' = (trace s1 @ [Tqdm_close]) @ Flush # failure_lines (delivery_reports env (n_poll s1)) @
       [Stdout (''Total bytes sent: '' @ str_int (bytes_sent s1) @ '' ('' @ scaled @ '')''),
        Stdout (''Last-batch throughput: '' @ r)]"
    by auto
  have "trace s' = trace s @ Tqdm_open batches # ext @ Tqdm_close # Flush #
       failure_lines (delivery_reports env (n_poll s1)) @
         [Stdout (''Total bytes sent: '' @ str_int (bytes_sent s') @ '' ('' @ scaled @ '')''),
          Stdout (''Last-batch throughput: '' @ r)]"
    by (simp add: g(2,4) e(2))
  moreover have "fmt_bytes (PyInt (bytes_sent s')) = Inr scaled" by (simp add: g(2,3))
  moreover have "bytes_sent s' = bytes_sent s + int (enqueued ext) * JOB_MSG_BYTES cfg"
    by (simp add: g(2) e(4))
  ultimately have "\<exists>ext reports scaled r.
       trace s' = trace s @ Tqdm_open batches # ext @ Tqdm_close # Flush # failure_lines reports @
         [Stdout (''Total bytes sent: '' @ str_int (bytes_sent s') @ '' ('' @ scaled @ '')''),
          Stdout (''Last-batch throughput: '' @ r)] \<and>
       list_all loop_event ext \<and>
       fmt_bytes (PyInt (bytes_sent s')) = Inr scaled \<and>
       bytes_sent s' = bytes_sent s + int (enqueued ext) * JOB_MSG_BYTES cfg \<and>
       enqueued ext = rounds ext * nat (JOB_BATCH_SIZE cfg) \<and>
       rounds ext = (if running s then nat batches else 0)"
    using e(3,5,6) by blast
  then show ?thesis using e(1) g(1) by simp
qed

lemma send_all_total:
  assumes "accepting env" and "0 \<le> JOB_MSG_BYTES cfg" and "0 \<le> bytes_sent s"
    and "bytes_sent s + int (nat batches) * (int (nat (JOB_BATCH_SIZE cfg)) * JOB_MSG_BYTES cfg)
           < 2 ^ 1023"
  shows "\<exists>s'. send_all cfg env batches s = Some (Inr s')"
proof -
  let ?s0 = "s\<lparr>trace := trace s @ [Tqdm_open batches]\<rparr>"
  let ?d = "int (nat (JOB_BATCH_SIZE cfg)) * JOB_MSG_BYTES cfg"
  have d: "0 \<le> ?d" using assms(2) by simp
  have "\<exists>s1. batch_loop cfg env (nat batches) ?s0 = Some (Inr s1)"
    using assms(3,4) by (intro batch_loop_total[OF assms(1,2)]) simp_all
  then obtain s1 where s1: "batch_loop cfg env (nat batches) ?s0 = Some (Inr s1)" by blast
  from batch_loop_effect[OF s1] obtain ext where e:
    "bytes_sent s1 = bytes_sent s + int (enqueued ext) * JOB_MSG_BYTES cfg"
    "enqueued ext = rounds ext * nat (JOB_BATCH_SIZE cfg)"
    "rounds ext = (if running s then nat batches else 0)"
    by auto
  have "bytes_sent s1 = bytes_sent s + int (rounds ext) * ?d" by (simp add: e(1,2))
  moreover have "int (rounds ext) * ?d \<le> int (nat batches) * ?d"
    using d e(3) by (intro mult_right_mono) auto
  moreover have "0 \<le> int (rounds ext) * ?d" using d by simp
  ultimately have "\<bar>bytes_sent (s1\<lparr>trace := trace s1 @ [Tqdm_close]\<rparr>)\<bar> < 2 ^ 1023"
    using assms(3,4) by simp
  from finish_total[OF this] obtain s' where
    "finish env (s1\<lparr>trace := trace s1 @ [Tqdm_close]\<rparr>) = Inr s'" by blast
  then show ?thesis by (simp add: send_all_def s1)
qed

lemma initial_state_fields [simp]:
  "running (initial_state cfg env conf)"
  "bytes_sent (initial_state cfg env conf) = 0"
  "start (initial_state cfg env conf) = Finite (time_time env 0)"
  "trace (initial_state cfg env conf) = startup_echo cfg @ [Producer_created conf]"
  by (simp_all add: initial_state_def)

lemma main_result:
  assumes "main cfg env = Some (Inr s')"
  shows "\<exists>conf total_messages batches.
    producer_config cfg = Inr conf \<and> plan cfg = Inr (total_messages, batches) \<and>
    send_all cfg env batches (initial_state cfg env conf) = Some (Inr s')"
  using assms
  by (auto simp: main_def split: sum.splits prod.splits)

lemma main_total:
  assumes "moderate cfg" and "accepting env"
  shows "\<exists>s' conf. main cfg env = Some (Inr s') \<and> producer_config cfg = Inr conf \<and>
    send_all cfg env
      (ceil_div (ceil_div (JOB_MAX_BYTES cfg) (JOB_MSG_BYTES cfg)) (JOB_BATCH_SIZE cfg))
      (initial_state cfg env conf) = Some (Inr s')"
proof -
  let ?T = "JOB_MAX_BYTES cfg" and ?M = "JOB_MSG_BYTES cfg" and ?B = "JOB_BATCH_SIZE cfg"
  let ?nb = "ceil_div (ceil_div ?T ?M) ?B"
  have m: "0 < ?M" "0 < ?B" using assms(1) by (simp_all add: moderate_def)
  have nb: "0 < ?nb"
    using ceil_div_bounds(1)[OF ceil_div_bounds(1)] assms(1) by (simp add: moderate_def)
  note vol = moderate_volume[OF assms(1)]
  obtain conf where conf: "producer_config cfg = Inr conf"
    using producer_config_total[OF assms(1)] by blast
  note pl = plan_exact[OF assms(1)]
  have eq: "int (nat ?nb) * (int (nat ?B) * ?M) = ?nb * ?B * ?M" using nb m by simp
  have "\<exists>s'. send_all cfg env ?nb (initial_state cfg env conf) = Some (Inr s')"
    using m vol(2) by (intro send_all_total[OF assms(2)]) (simp_all add: eq)
  then obtain s' where s': "send_all cfg env ?nb (initial_state cfg env conf) = Some (Inr s')"
    by blast
  then have "main cfg env = Some (Inr s')" by (simp add: main_def conf pl)
  then show ?thesis using conf s' by blast
qed

subsection \<open>Counting events in the trace of a run\<close>

lemma startup_echo_counts [simp]:
  "enqueued (startup_echo cfg) = 0"
  "rounds (startup_echo cfg) = 0"
  "filter is_flush (startup_echo cfg) = []"
  "filter is_producer_created (startup_echo cfg) = []"
  by (simp_all add: startup_echo_def)

lemma loop_events_filters:
  assumes "list_all loop_event ext"
  shows "filter is_flush ext = []" and "filter is_producer_created ext = []"
proof -
  have "\<And>e. loop_event e \<Longrightarrow> \<not> is_flush e \<and> \<not> is_producer_created e"
    by (case_tac e) simp_all
  then show "filter is_flush ext = []" "filter is_producer_created ext = []"
    using assms by (auto simp: list_all_iff filter_empty_conv)
qed

lemma failure_lines_filters [simp]:
  "filter is_flush (failure_lines rs) = []"
  "filter is_producer_created (failure_lines rs) = []"
  using loop_events_filters[OF failure_lines_props(1)[of rs]] by simp_all

lemma main_effect:
  assumes "main cfg env = Some (Inr s')"
  shows "\<exists>conf total_messages batches ext reports scaled r.
    producer_config cfg = Inr conf \<and> plan cfg = Inr (total_messages, batches) \<and>
    trace s' = startup_echo cfg @ Producer_created conf # Tqdm_open batches # ext @
      Tqdm_close # Flush # failure_lines reports @
       [Stdout (''Total bytes sent: '' @ str_int (bytes_sent s') @ '' ('' @ scaled @ '')''),
        Stdout (''Last-batch throughput: '' @ r)] \<and>
    list_all loop_event ext \<and> fmt_bytes (PyInt (bytes_sent s')) = Inr scaled \<and>
    bytes_sent s' = int (enqueued ext) * JOB_MSG_BYTES cfg \<and>
    enqueued ext = rounds ext * nat (JOB_BATCH_SIZE cfg) \<and>
    rounds ext = nat batches \<and> running s'"
proof -
  from main_result[OF assms] obtain conf total_messages batches where m:
    "producer_config cfg = Inr conf" "plan cfg = Inr (total_messages, batches)"
    "send_all cfg env batches (initial_state cfg env conf) = Some (Inr s')" by blast
  from send_all_effect[OF m(3)] obtain ext reports scaled r where e:
    "running s'"
    "trace s' = (startup_echo cfg @ [Producer_created conf]) @ Tqdm_open batches # ext @
       Tqdm_close # Flush # failure_lines reports @
       [Stdout (''Total bytes sent: '' @ str_int (bytes_sent s') @ '' ('' @ scaled @ '')''),
        Stdout (''Last-batch throughput: '' @ r)]"
    "list_all loop_event ext" "fmt_bytes (PyInt (bytes_sent s')) = Inr scaled"
    "bytes_sent s' = int (enqueued ext) * JOB_MSG_BYTES cfg"
    "enqueued ext = rounds ext * nat (JOB_BATCH_SIZE cfg)" "rounds ext = nat batches"
    by auto
  have "trace s' = startup_echo cfg @ Producer_created conf # Tqdm_open batches # ext @
      Tqdm_close # Flush # failure_lines reports @
       [Stdout (''Total bytes sent: '' @ str_int (bytes_sent s') @ '' ('' @ scaled @ '')''),
        Stdout (''Last-batch throughput: '' @ r)]"
    using e(2) by simp
  then show ?thesis using m(1,2) e(1,3-7) by blast
qed

lemma main_counts:
  assumes "main cfg env = Some (Inr s')"
  shows "\<exists>conf total_messages batches.
    producer_config cfg = Inr conf \<and> plan cfg = Inr (total_messages, batches) \<and>
    bytes_sent s' = int (enqueued (trace s')) * JOB_MSG_BYTES cfg \<and>
    enqueued (trace s') = rounds (trace s') * nat (JOB_BATCH_SIZE cfg) \<and>
    rounds (trace s') = nat batches \<and> running s' \<and>
    filter is_flush (trace s') = [Flush] \<and>
    filter is_producer_created (trace s') = [Producer_created conf]"
proof -
  from main_effect[OF assms] obtain conf total_messages batches ext reports scaled r where e:
    "producer_config cfg = Inr conf" "plan cfg = Inr (total_messages, batches)"
    "trace s' = startup_echo cfg @ Producer_created conf # Tqdm_open batches # ext @
      Tqdm_close # Flush # failure_lines reports @
       [Stdout (''Total bytes sent: '' @ str_int (bytes_sent s') @ '' ('' @ scaled @ '')''),
        Stdout (''Last-batch throughput: '' @ r)]"
    "list_all loop_event ext"
    "bytes_sent s' = int (enqueued ext) * JOB_MSG_BYTES cfg"
    "enqueued ext = rounds ext * nat (JOB_BATCH_SIZE cfg)"
    "rounds ext = nat batches" "running s'"
    by blast
  note f = loop_events_filters[OF e(4)]
  have "enqueued (trace s') = enqueued ext" "rounds (trace s') = rounds ext"
    "filter is_flush (trace s') = [Flush]"
    "filter is_producer_created (trace s') = [Producer_created conf]"
    unfolding e(3) by (simp_all add: f)
  then show ?thesis using e(1,2,5-8) by simp
qed

lemma ceil_div_mult_ge:
  assumes "0 < b"
  shows "a \<le> ceil_div a b * b"
proof -
  have "rat_of_int a / of_int b \<le> of_int (ceil_div a b)" unfolding ceil_div_def by simp
  then have "rat_of_int a \<le> of_int (ceil_div a b) * of_int b"
    using assms by (simp add: pos_divide_le_eq)
  then have "rat_of_int a \<le> of_int (ceil_div a b * b)" by simp
  then show ?thesis unfolding of_int_le_iff .
qed

lemma main_total_counts:
  assumes "moderate cfg" and "accepting env"
  shows "\<exists>s'. main cfg env = Some (Inr s') \<and>
    plan cfg = Inr (ceil_div (JOB_MAX_BYTES cfg) (JOB_MSG_BYTES cfg),
       ceil_div (ceil_div (JOB_MAX_BYTES cfg) (JOB_MSG_BYTES cfg)) (JOB_BATCH_SIZE cfg)) \<and>
    bytes_sent s' = ceil_div (ceil_div (JOB_MAX_BYTES cfg) (JOB_MSG_BYTES cfg)) (JOB_BATCH_SIZE cfg) *
       JOB_BATCH_SIZE cfg * JOB_MSG_BYTES cfg \<and>
    int (enqueued (trace s')) =
       ceil_div (ceil_div (JOB_MAX_BYTES cfg) (JOB_MSG_BYTES cfg)) (JOB_BATCH_SIZE cfg) *
       JOB_BATCH_SIZE cfg \<and>
    int (rounds (trace s')) =
       ceil_div (ceil_div (JOB_MAX_BYTES cfg) (JOB_MSG_BYTES cfg)) (JOB_BATCH_SIZE cfg)"
proof -
  let ?T = "JOB_MAX_BYTES cfg" and ?M = "JOB_MSG_BYTES cfg" and ?B = "JOB_BATCH_SIZE cfg"
  let ?nb = "ceil_div (ceil_div ?T ?M) ?B"
  have m: "0 < ?M" "0 < ?B" using assms(1) by (simp_all add: moderate_def)
  have nb: "0 < ?nb"
    using ceil_div_bounds(1)[OF ceil_div_bounds(1)] assms(1) by (simp add: moderate_def)
  obtain s' where s': "main cfg env = Some (Inr s')" using main_total[OF assms] by blast
  note pl = plan_exact[OF assms(1)]
  from main_counts[OF s'] pl have c:
    "bytes_sent s' = int (enqueued (trace s')) * ?M"
    "enqueued (trace s') = rounds (trace s') * nat ?B"
    "rounds (trace s') = nat ?nb" by auto
  have r: "int (rounds (trace s')) = ?nb" using c(3) nb by simp
  have e: "int (enqueued (trace s')) = ?nb * ?B" using c(2) r m by simp
  have "bytes_sent s' = ?nb * ?B * ?M" using c(1) e by simp
  then show ?thesis using s' pl r e by blast
qed

subsection \<open>The concrete runs\<close>

lemma moderate_example: "moderate example_config"
  by (simp add: moderate_def example_config_def)

lemma accepting_example: "accepting example_env"
  unfolding accepting_def by (auto simp: example_env_def intro!: exI[of _ 0])

lemma accepting_busy: "accepting busy_env"
  unfolding accepting_def
proof
  fix n :: nat
  consider "n = 1" | "n = 2" | "n \<noteq> 1 \<and> n \<noteq> 2" by blast
  then show "\<exists>k. (\<forall>i<k. produce_outcome busy_env (n + i) = BufferError) \<and>
         produce_outcome busy_env (n + k) = Enqueued"
  proof cases
    case 1
    then show ?thesis by (intro exI[of _ 2]) (auto simp: busy_env_def less_Suc_eq numeral_2_eq_2)
  next
    case 2
    then show ?thesis by (intro exI[of _ 1]) (auto simp: busy_env_def)
  next
    case 3
    then show ?thesis by (intro exI[of _ 0]) (auto simp: busy_env_def)
  qed
qed

lemma ceil_div_example: "ceil_div 1000 300 = 4" "ceil_div 4 3 = 2"
  by (simp_all add: ceil_div_def ceiling_unique)

lemma example_sizes [simp]:
  "JOB_MAX_BYTES example_config = 1000" "JOB_MSG_BYTES example_config = 300"
  "JOB_BATCH_SIZE example_config = 3"
  by (simp_all add: example_config_def)

section \<open>The claims\<close>

text \<open>
  C1, as the code has it. For positive sizes below \<open>2 ^ 53\<close> and a client that
  accepts every message after finitely many refusals, the run ends and the byte counter is
  the number of batches times the batch size times the message size, whatever the number of
  retries. This is at least \<open>total_messages\<close> times the message size.
\<close>

theorem full_run_bytes_sent:
  assumes "moderate cfg" and "accepting env"
  shows "\<exists>total_messages batches s.
    plan cfg = Inr (total_messages, batches) \<and> main cfg env = Some (Inr s) \<and>
    bytes_sent s = batches * JOB_BATCH_SIZE cfg * JOB_MSG_BYTES cfg \<and>
    total_messages * JOB_MSG_BYTES cfg \<le> bytes_sent s"
proof -
  let ?tm = "ceil_div (JOB_MAX_BYTES cfg) (JOB_MSG_BYTES cfg)"
  let ?nb = "ceil_div ?tm (JOB_BATCH_SIZE cfg)"
  have m: "0 < JOB_MSG_BYTES cfg" "0 < JOB_BATCH_SIZE cfg"
    using assms(1) by (simp_all add: moderate_def)
  from main_total_counts[OF assms] obtain s where s:
    "main cfg env = Some (Inr s)" "plan cfg = Inr (?tm, ?nb)"
    "bytes_sent s = ?nb * JOB_BATCH_SIZE cfg * JOB_MSG_BYTES cfg" by blast
  have "?tm \<le> ?nb * JOB_BATCH_SIZE cfg" using ceil_div_mult_ge[OF m(2)] .
  then have "?tm * JOB_MSG_BYTES cfg \<le> bytes_sent s"
    unfolding s(3) using m(1) by (intro mult_right_mono) auto
  then show ?thesis using s by blast
qed

theorem full_run_bytes_sent_witness:
  "moderate example_config \<and> accepting busy_env \<and>
   (\<exists>s. plan example_config = Inr (4, 2) \<and> main example_config busy_env = Some (Inr s) \<and>
        bytes_sent s = 1800)"
proof -
  from full_run_bytes_sent[OF moderate_example accepting_busy] obtain tm nb s where s:
    "plan example_config = Inr (tm, nb)" "main example_config busy_env = Some (Inr s)"
    "bytes_sent s = nb * JOB_BATCH_SIZE example_config * JOB_MSG_BYTES example_config"
    by blast
  have "plan example_config = Inr (4, 2)"
    using plan_exact[OF moderate_example] by (simp add: ceil_div_example)
  then show ?thesis using s moderate_example accepting_busy by auto
qed

text \<open>
  C1, as stated, fails: with a target of 1000 bytes, messages of 300 bytes and batches of
  3, the plan is 4 messages in 2 batches, and a full run counts 1800 bytes, not 1200.
\<close>

theorem full_run_counts_whole_batches:
  "plan example_config = Inr (4, 2) \<and>
   map_option (map_sum id bytes_sent) (main example_config example_env) = Some (Inr 1800) \<and>
   (1800 :: int) \<noteq> 4 * JOB_MSG_BYTES example_config"
proof -
  from main_total_counts[OF moderate_example accepting_example] obtain s where s:
    "main example_config example_env = Some (Inr s)"
    "bytes_sent s = ceil_div (ceil_div 1000 300) 3 * 3 * 300"
    by auto
  have "plan example_config = Inr (4, 2)"
    using plan_exact[OF moderate_example] by (simp add: ceil_div_example)
  then show ?thesis using s by (simp add: ceil_div_example)
qed

text \<open>
  C9. The dictionary handed to the client holds \<open>******\<close> under \<open>sasl.password\<close> when the
  password is not empty and the empty string otherwise; two configurations that differ
  only in the password, both empty or both not, give the same dictionary; and the
  dictionary of a completed run is this one. (The entry is equal to the password itself
  exactly when the password is \<open>******\<close> or empty.)
\<close>

theorem sasl_password_masked:
  "(producer_config cfg = Inr conf \<longrightarrow>
      map_of conf ''sasl.password'' =
        Some (V_str (if KAFKA_SASL_PASSWORD cfg = [] then [] else ''******''))) \<and>
   ((pw = [] \<longleftrightarrow> pw' = []) \<longrightarrow>
      producer_config (cfg\<lparr>KAFKA_SASL_PASSWORD := pw\<rparr>) =
      producer_config (cfg\<lparr>KAFKA_SASL_PASSWORD := pw'\<rparr>)) \<and>
   (main cfg env = Some (Inr s) \<longrightarrow>
      (\<exists>c. producer_config cfg = Inr c \<and>
           filter is_producer_created (trace s) = [Producer_created c]))"
proof (intro conjI impI)
  assume "producer_config cfg = Inr conf"
  then show "map_of conf ''sasl.password'' =
        Some (V_str (if KAFKA_SASL_PASSWORD cfg = [] then [] else ''******''))"
    by (auto simp: producer_config_def str_mul_def split: sum.splits)
next
  assume "(pw = []) = (pw' = [])"
  then show "producer_config (cfg\<lparr>KAFKA_SASL_PASSWORD := pw\<rparr>) =
      producer_config (cfg\<lparr>KAFKA_SASL_PASSWORD := pw'\<rparr>)"
    by (auto simp: producer_config_def str_mul_def split: sum.splits)
next
  assume "main cfg env = Some (Inr s)"
  from main_counts[OF this]
  show "\<exists>c. producer_config cfg = Inr c \<and>
           filter is_producer_created (trace s) = [Producer_created c]" by blast
qed

theorem sasl_password_masked_witness:
  "(\<exists>conf. producer_config example_config = Inr conf \<and>
      map_of conf ''sasl.password'' = Some (V_str ''******'')) \<and>
   producer_config (example_config\<lparr>KAFKA_SASL_PASSWORD := ''hunter2''\<rparr>) =
   producer_config (example_config\<lparr>KAFKA_SASL_PASSWORD := ''swordfish''\<rparr>) \<and>
   (\<exists>s c. main example_config example_env = Some (Inr s) \<and>
      producer_config example_config = Inr c \<and>
      filter is_producer_created (trace s) = [Producer_created c])"
proof -
  obtain conf where conf: "producer_config example_config = Inr conf"
    using producer_config_total[OF moderate_example] by blast
  obtain s where s: "main example_config example_env = Some (Inr s)"
    using main_total[OF moderate_example accepting_example] by blast
  have pw: "KAFKA_SASL_PASSWORD example_config \<noteq> []" by (simp add: example_config_def)
  have ne: "(''hunter2'' = []) = (''swordfish'' = [])" by simp
  note t = sasl_password_masked[of example_config conf "''hunter2''" "''swordfish''" example_env s]
  from t conf pw have "map_of conf ''sasl.password'' = Some (V_str ''******'')" by simp
  moreover from t ne have "producer_config (example_config\<lparr>KAFKA_SASL_PASSWORD := ''hunter2''\<rparr>) =
     producer_config (example_config\<lparr>KAFKA_SASL_PASSWORD := ''swordfish''\<rparr>)" by blast
  moreover from t s have "\<exists>c. producer_config example_config = Inr c \<and>
      filter is_producer_created (trace s) = [Producer_created c]" by blast
  ultimately show ?thesis using conf s by blast
qed

text \<open>
  C2, as the code has it. Every round of the outer loop that completes, the last one
  included, hands exactly \<open>JOB_BATCH_SIZE\<close> messages to the client; a full run makes
  \<open>batches\<close> rounds and hands over \<open>batches * JOB_BATCH_SIZE\<close> messages, which is at
  least \<open>total_messages\<close>.
\<close>

theorem every_batch_sends_batch_size:
  "(batch_body cfg env s = Some (Inr s') \<longrightarrow>
      enqueued (trace s') = enqueued (trace s) + nat (JOB_BATCH_SIZE cfg)) \<and>
   (moderate cfg \<and> accepting env \<longrightarrow>
      (\<exists>total_messages batches r.
         plan cfg = Inr (total_messages, batches) \<and> main cfg env = Some (Inr r) \<and>
         int (rounds (trace r)) = batches \<and>
         int (enqueued (trace r)) = batches * JOB_BATCH_SIZE cfg \<and>
         total_messages \<le> int (enqueued (trace r))))"
proof (intro conjI impI)
  assume "batch_body cfg env s = Some (Inr s')"
  from batch_body_effect[OF this]
  show "enqueued (trace s') = enqueued (trace s) + nat (JOB_BATCH_SIZE cfg)" by auto
next
  assume a: "moderate cfg \<and> accepting env"
  let ?tm = "ceil_div (JOB_MAX_BYTES cfg) (JOB_MSG_BYTES cfg)"
  let ?nb = "ceil_div ?tm (JOB_BATCH_SIZE cfg)"
  have b: "0 < JOB_BATCH_SIZE cfg" using a by (simp add: moderate_def)
  from a main_total_counts[of cfg env] obtain r where r:
    "main cfg env = Some (Inr r)" "plan cfg = Inr (?tm, ?nb)"
    "int (enqueued (trace r)) = ?nb * JOB_BATCH_SIZE cfg" "int (rounds (trace r)) = ?nb"
    by blast
  have "?tm \<le> int (enqueued (trace r))" unfolding r(3) using ceil_div_mult_ge[OF b] .
  then show "\<exists>total_messages batches r.
         plan cfg = Inr (total_messages, batches) \<and> main cfg env = Some (Inr r) \<and>
         int (rounds (trace r)) = batches \<and>
         int (enqueued (trace r)) = batches * JOB_BATCH_SIZE cfg \<and>
         total_messages \<le> int (enqueued (trace r))"
    using r by blast
qed

lemma example_initial_bytes:
  "\<bar>bytes_sent (initial_state example_config env conf) +
     int (nat (JOB_BATCH_SIZE example_config)) * JOB_MSG_BYTES example_config\<bar> < 2 ^ 1023"
  by simp

theorem every_batch_sends_batch_size_witness:
  "(\<exists>s'. batch_body example_config busy_env (initial_state example_config busy_env []) = Some (Inr s') \<and>
      enqueued (trace s') = 3) \<and>
   moderate example_config \<and> accepting busy_env \<and>
   (\<exists>r. plan example_config = Inr (4, 2) \<and> main example_config busy_env = Some (Inr r) \<and>
      rounds (trace r) = 2 \<and> enqueued (trace r) = 6)"
proof -
  let ?s0 = "initial_state example_config busy_env []"
  obtain s' where s': "batch_body example_config busy_env ?s0 = Some (Inr s')"
    using batch_body_total[OF accepting_busy example_initial_bytes] by blast
  have p: "plan example_config = Inr (4, 2)"
    using plan_exact[OF moderate_example] by (simp add: ceil_div_example)
  note t = every_batch_sends_batch_size[of example_config busy_env ?s0 s']
  from t s' have 1: "enqueued (trace s') = 3" by simp
  from t moderate_example accepting_busy p obtain r where
    "main example_config busy_env = Some (Inr r)" "int (rounds (trace r)) = 2"
    "int (enqueued (trace r)) = 2 * 3" by auto
  then have "\<exists>r. plan example_config = Inr (4, 2) \<and> main example_config busy_env = Some (Inr r) \<and>
      rounds (trace r) = 2 \<and> enqueued (trace r) = 6" using p by auto
  then show ?thesis using s' 1 moderate_example accepting_busy by blast
qed

text \<open>
  C2, as stated, fails: with a target of 1000 bytes, messages of 300 bytes and batches of
  3, the plan is 4 messages in 2 batches, and the run hands 6 messages to the client in
  its 2 rounds; the last round sends 3 messages, not the one that remains.
\<close>

theorem final_batch_is_full:
  "plan example_config = Inr (4, 2) \<and>
   map_option (map_sum id (\<lambda>s. (rounds (trace s), enqueued (trace s))))
     (main example_config example_env) = Some (Inr (2, 6)) \<and>
   (6 :: nat) \<noteq> 4"
proof -
  have p: "plan example_config = Inr (4, 2)"
    using plan_exact[OF moderate_example] by (simp add: ceil_div_example)
  from main_total_counts[OF moderate_example accepting_example] obtain s where s:
    "main example_config example_env = Some (Inr s)"
    "int (enqueued (trace s)) = ceil_div (ceil_div 1000 300) 3 * 3"
    "int (rounds (trace s)) = ceil_div (ceil_div 1000 300) 3"
    by auto
  have "enqueued (trace s) = 6" "rounds (trace s) = 2" using s(2,3) by (simp_all add: ceil_div_example)
  then show ?thesis using p s(1) by simp
qed

text \<open>
  C3 fails on the code for a large target. The quotient of line 93 is a binary64 float:
  for a target of \<open>2 ^ 53 + 1\<close> bytes in messages of one byte it is rounded to \<open>2 ^ 53\<close>,
  so the plan is one message short of the ceiling of the exact quotient.
\<close>

theorem plan_underestimates_large_target:
  "plan large_config = Inr (9007199254740992, 9007199254740992) \<and>
   ceil_div (JOB_MAX_BYTES large_config) (JOB_MSG_BYTES large_config) = 9007199254740993"
proof -
  have h: "round_half_even 4503599627370496 = 4503599627370496"
    using round_half_even_of_int[of 4503599627370496] by simp
  have "round_to_double 9007199254740992 = Finite (of_int 4503599627370496 * 2 powi 1)"
    by (rule round_to_double_pos[where ?e0.0 = 53]) (simp_all add: h)
  then have r: "round_to_double 9007199254740992 = Finite 9007199254740992" by simp
  have "plan large_config = Inr (9007199254740992, 9007199254740992)"
    by (simp add: plan_def large_config_def int_truediv_def round_to_double_2_53_1 r)
  moreover have "ceil_div (JOB_MAX_BYTES large_config) (JOB_MSG_BYTES large_config) = 9007199254740993"
    by (simp add: large_config_def ceil_div_def)
  ultimately show ?thesis by simp
qed

text \<open>
  C10. \<open>running\<close> is true when the loop is entered, and neither the callback nor
  \<open>poll\<close>, \<open>flush\<close>, \<open>send\<close> or a round of the loop changes it. So a run that ends
  normally has made exactly \<open>batches\<close> rounds (none when \<open>batches\<close> is not positive) and
  the flag is still set. Nothing in the program assigns the flag again; the imported
  \<open>signal\<close> module is not used and has no counterpart here. A run can still end early by
  an exception of \<open>produce\<close> other than BufferError.
\<close>

theorem running_never_cleared:
  "running (initial_state cfg env conf) \<and>
   running (on_delivery_cb err msg s) = running s \<and>
   running (poll env timeout s) = running s \<and>
   running (flush env s) = running s \<and>
   (send env payload topic s = Some (Inr s') \<longrightarrow> running s' = running s) \<and>
   (batch_body cfg env s = Some (Inr s') \<longrightarrow> running s' = running s) \<and>
   (main cfg env = Some (Inr r) \<longrightarrow>
      running r \<and> (\<exists>total_messages batches.
         plan cfg = Inr (total_messages, batches) \<and> rounds (trace r) = nat batches))"
proof (intro conjI impI)
  assume "send env payload topic s = Some (Inr s')"
  from send_effect(1)[OF this] show "running s' = running s" .
next
  assume "batch_body cfg env s = Some (Inr s')"
  from batch_body_effect[OF this] show "running s' = running s" by simp
next
  assume m: "main cfg env = Some (Inr r)"
  from main_counts[OF m] show "running r" by blast
  from main_counts[OF m] show "\<exists>total_messages batches.
         plan cfg = Inr (total_messages, batches) \<and> rounds (trace r) = nat batches" by blast
qed simp_all

theorem running_never_cleared_witness:
  "(\<exists>s'. send busy_env ''0'' ''topic'' (initial_state example_config busy_env []) = Some (Inr s') \<and>
      running s') \<and>
   (\<exists>s'. batch_body example_config busy_env (initial_state example_config busy_env []) = Some (Inr s') \<and>
      running s') \<and>
   (\<exists>r. main example_config busy_env = Some (Inr r) \<and> running r \<and>
      plan example_config = Inr (4, 2) \<and> rounds (trace r) = 2)"
proof -
  let ?s0 = "initial_state example_config busy_env []"
  obtain s1 where s1: "send busy_env ''0'' ''topic'' ?s0 = Some (Inr s1)"
    using send_total[OF accepting_busy] by blast
  obtain s2 where s2: "batch_body example_config busy_env ?s0 = Some (Inr s2)"
    using batch_body_total[OF accepting_busy example_initial_bytes] by blast
  obtain r where r: "main example_config busy_env = Some (Inr r)"
    using main_total[OF moderate_example accepting_busy] by blast
  have p: "plan example_config = Inr (4, 2)"
    using plan_exact[OF moderate_example] by (simp add: ceil_div_example)
  from running_never_cleared[of example_config busy_env "[]" None undefined ?s0 undefined
      "''0''" "''topic''" s1 r] s1
  have 1: "running s1" by simp
  from running_never_cleared[of example_config busy_env "[]" None undefined ?s0 undefined
      "''0''" "''topic''" s2 r] s2 r p
  have 2: "running s2" "running r" "rounds (trace r) = 2" by auto
  show ?thesis using s1 s2 r p 1 2 by blast
qed

text \<open>
  C5. Lines 98 to 128, started in any state, cancelled or not: when they return, the
  trace has grown by the opening of the progress bar, events of the loop (no flush among
  them), the closing of the bar, one flush with the callbacks it runs, and the two final
  lines; the total printed is the byte counter, which is the counter at the start plus the
  message size for each message handed to the client since. When the flag is already
  cleared, no round is made and the counter is unchanged. A completed run of \<open>main\<close>
  holds exactly one flush. That the flush returns only after every message in flight is
  delivered or failed is a property of the client and is not part of the program.
\<close>

theorem flush_once_after_loop:
  "(send_all cfg env batches s = Some (Inr s') \<longrightarrow>
      (\<exists>ext reports scaled r.
         trace s' = trace s @ Tqdm_open batches # ext @ Tqdm_close # Flush #
           failure_lines reports @
           [Stdout (''Total bytes sent: '' @ str_int (bytes_sent s') @ '' ('' @ scaled @ '')''),
            Stdout (''Last-batch throughput: '' @ r)] \<and>
         filter is_flush ext = [] \<and> filter is_flush (failure_lines reports) = [] \<and>
         fmt_bytes (PyInt (bytes_sent s')) = Inr scaled \<and>
         bytes_sent s' = bytes_sent s + int (enqueued ext) * JOB_MSG_BYTES cfg \<and>
         rounds ext = (if running s then nat batches else 0) \<and>
         (\<not> running s \<longrightarrow> bytes_sent s' = bytes_sent s))) \<and>
   (main cfg env = Some (Inr r) \<longrightarrow> filter is_flush (trace r) = [Flush])"
proof (intro conjI impI)
  assume "send_all cfg env batches s = Some (Inr s')"
  from send_all_effect[OF this] obtain ext reports scaled r where e:
    "trace s' = trace s @ Tqdm_open batches # ext @ Tqdm_close # Flush # failure_lines reports @
         [Stdout (''Total bytes sent: '' @ str_int (bytes_sent s') @ '' ('' @ scaled @ '')''),
          Stdout (''Last-batch throughput: '' @ r)]"
    "list_all loop_event ext" "fmt_bytes (PyInt (bytes_sent s')) = Inr scaled"
    "bytes_sent s' = bytes_sent s + int (enqueued ext) * JOB_MSG_BYTES cfg"
    "enqueued ext = rounds ext * nat (JOB_BATCH_SIZE cfg)"
    "rounds ext = (if running s then nat batches else 0)"
    by blast
  have "\<not> running s \<longrightarrow> bytes_sent s' = bytes_sent s" using e(4,5,6) by simp
  then show "\<exists>ext reports scaled r.
         trace s' = trace s @ Tqdm_open batches # ext @ Tqdm_close # Flush #
           failure_lines reports @
           [Stdout (''Total bytes sent: '' @ str_int (bytes_sent s') @ '' ('' @ scaled @ '')''),
            Stdout (''Last-batch throughput: '' @ r)] \<and>
         filter is_flush ext = [] \<and> filter is_flush (failure_lines reports) = [] \<and>
         fmt_bytes (PyInt (bytes_sent s')) = Inr scaled \<and>
         bytes_sent s' = bytes_sent s + int (enqueued ext) * JOB_MSG_BYTES cfg \<and>
         rounds ext = (if running s then nat batches else 0) \<and>
         (\<not> running s \<longrightarrow> bytes_sent s' = bytes_sent s)"
    using e(1,3,4,6) loop_events_filters(1)[OF e(2)] failure_lines_filters(1) by blast
next
  assume "main cfg env = Some (Inr r)"
  from main_counts[OF this] show "filter is_flush (trace r) = [Flush]" by blast
qed

theorem flush_once_after_loop_witness:
  "(\<exists>s'. send_all example_config busy_env 2
            ((initial_state example_config busy_env [])\<lparr>running := False\<rparr>) = Some (Inr s') \<and>
         bytes_sent s' = 0 \<and>
         (\<exists>ext reports scaled r.
            trace s' = trace (initial_state example_config busy_env []) @ Tqdm_open 2 # ext @
              Tqdm_close # Flush # failure_lines reports @
              [Stdout (''Total bytes sent: '' @ str_int 0 @ '' ('' @ scaled @ '')''),
               Stdout (''Last-batch throughput: '' @ r)] \<and>
            filter is_flush ext = [] \<and> rounds ext = 0)) \<and>
   (\<exists>r. main example_config busy_env = Some (Inr r) \<and> filter is_flush (trace r) = [Flush])"
proof -
  let ?s = "(initial_state example_config busy_env [])\<lparr>running := False\<rparr>"
  have "\<exists>s'. send_all example_config busy_env 2 ?s = Some (Inr s')"
    by (rule send_all_total[OF accepting_busy]) simp_all
  then obtain s' where s': "send_all example_config busy_env 2 ?s = Some (Inr s')" by blast
  obtain r where r: "main example_config busy_env = Some (Inr r)"
    using main_total[OF moderate_example accepting_busy] by blast
  note t = flush_once_after_loop[of example_config busy_env 2 ?s s' r]
  from t s' obtain ext reports scaled l where e:
    "trace s' = trace ?s @ Tqdm_open 2 # ext @ Tqdm_close # Flush # failure_lines reports @
       [Stdout (''Total bytes sent: '' @ str_int (bytes_sent s') @ '' ('' @ scaled @ '')''),
        Stdout (''Last-batch throughput: '' @ l)]"
    "filter is_flush ext = []" "rounds ext = (if running ?s then nat 2 else 0)"
    "\<not> running ?s \<longrightarrow> bytes_sent s' = bytes_sent ?s"
    by blast
  have b: "bytes_sent s' = 0" using e(4) by simp
  have "trace s' = trace (initial_state example_config busy_env []) @ Tqdm_open 2 # ext @
       Tqdm_close # Flush # failure_lines reports @
       [Stdout (''Total bytes sent: '' @ str_int 0 @ '' ('' @ scaled @ '')''),
        Stdout (''Last-batch throughput: '' @ l)]"
    using e(1) b by simp
  moreover have "rounds ext = 0" using e(3) by simp
  moreover from t r have "filter is_flush (trace r) = [Flush]" by blast
  ultimately show ?thesis using s' b e(2) r by blast
qed

lemma retry_events_split:
  "filter (\<lambda>e. \<not> is_stderr e)
     (concat (map (\<lambda>i. Produce t (u i) p (c i) # Poll x # failure_lines (r i)) [0..<k])) =
   concat (map (\<lambda>i. [Produce t (u i) p (c i), Poll x]) [0..<k])"
  "filter is_stderr
     (concat (map (\<lambda>i. Produce t (u i) p (c i) # Poll x # failure_lines (r i)) [0..<k])) =
   failure_lines (concat (map r [0..<k]))"
  by (induction k; simp add: failure_lines_append)+

lemma length_failure_lines:
  "length (failure_lines rs) = length (filter (\<lambda>r. fst r \<noteq> None) rs)"
  by (induction rs rule: failure_lines.induct) simp_all

lemma failure_lines_stderr: "list_all is_stderr (failure_lines rs)"
  by (induction rs rule: failure_lines.induct) simp_all

lemma accepting_reports [simp]: "accepting (env\<lparr>delivery_reports := r\<rparr>) = accepting env"
  by (simp add: accepting_def)

text \<open>
  C4. When \<open>produce\<close> raises BufferError on the next \<open>k\<close> calls and accepts the call after
  them, \<open>send\<close> returns after exactly \<open>k + 1\<close> calls of \<open>produce\<close>, all for the same
  topic and payload: \<open>k\<close> refused ones, each followed by one \<open>poll(0.1)\<close>, and one accepted
  one. The only other events are the lines that the callback writes for failed deliveries
  reported during those polls; a refusal writes nothing and counts nothing. The timeout is
  the float nearest to one tenth of a second. The theorem holds for every \<open>k\<close>.
\<close>

theorem send_retries_until_accepted:
  assumes "\<forall>i<k. produce_outcome env (n_produce s + i) = BufferError"
    and "produce_outcome env (n_produce s + k) = Enqueued"
  shows "\<exists>s' ext. send env payload topic s = Some (Inr s') \<and>
    n_produce s' = n_produce s + k + 1 \<and> n_poll s' = n_poll s + k \<and>
    bytes_sent s' = bytes_sent s \<and> trace s' = trace s @ ext \<and>
    filter (\<lambda>e. \<not> is_stderr e) ext =
      concat (map (\<lambda>i. [Produce topic (uuid4 env (n_uuid s + i)) payload BufferError,
                          Poll (PyFloat backoff_seconds)]) [0..<k]) @
      [Produce topic (uuid4 env (n_uuid s + k)) payload Enqueued] \<and>
    filter is_stderr ext =
      failure_lines (concat (map (\<lambda>i. delivery_reports env (n_poll s + i)) [0..<k])) \<and>
    backoff_seconds = Finite (3602879701896397 / 36028797018963968)"
proof -
  let ?s' = "attempt env payload topic (retries env payload topic k s)"
  let ?retry = "concat (map (\<lambda>i. Produce topic (uuid4 env (n_uuid s + i)) payload
                   (produce_outcome env (n_produce s + i)) #
                 Poll (PyFloat backoff_seconds) #
                 failure_lines (delivery_reports env (n_poll s + i))) [0..<k])"
  let ?ext = "?retry @ [Produce topic (uuid4 env (n_uuid s + k)) payload Enqueued]"
  have r: "send env payload topic s = Some (Inr ?s')" using assms by (rule send_retries)
  have t: "trace ?s' = trace s @ ?ext"
    by (simp add: attempt_trace retries_trace assms(2))
  have c: "map (\<lambda>i. [Produce topic (uuid4 env (n_uuid s + i)) payload
                      (produce_outcome env (n_produce s + i)), Poll (PyFloat backoff_seconds)]) [0..<k] =
           map (\<lambda>i. [Produce topic (uuid4 env (n_uuid s + i)) payload BufferError,
                      Poll (PyFloat backoff_seconds)]) [0..<k]"
    using assms(1) by simp
  have f1: "filter (\<lambda>e. \<not> is_stderr e) ?ext =
      concat (map (\<lambda>i. [Produce topic (uuid4 env (n_uuid s + i)) payload BufferError,
                          Poll (PyFloat backoff_seconds)]) [0..<k]) @
      [Produce topic (uuid4 env (n_uuid s + k)) payload Enqueued]"
    by (simp add: retry_events_split(1) c)
  have f2: "filter is_stderr ?ext =
      failure_lines (concat (map (\<lambda>i. delivery_reports env (n_poll s + i)) [0..<k]))"
    by (simp add: retry_events_split(2))
  have "n_produce ?s' = n_produce s + k + 1" "n_poll ?s' = n_poll s + k"
    "bytes_sent ?s' = bytes_sent s" by simp_all
  then show ?thesis using r t f1 f2 backoff_seconds_eq by blast
qed

theorem send_retries_until_accepted_witness:
  "n_produce ((initial_state example_config busy_env [])\<lparr>n_produce := 1\<rparr>) = 1 \<and>
   produce_outcome busy_env 1 = BufferError \<and> produce_outcome busy_env 2 = BufferError \<and>
   produce_outcome busy_env 3 = Enqueued \<and>
   (\<exists>s' ext. send busy_env ''000'' ''topic''
        ((initial_state example_config busy_env [])\<lparr>n_produce := 1\<rparr>) = Some (Inr s') \<and>
      n_produce s' = 4 \<and> n_poll s' = 2 \<and> bytes_sent s' = 0 \<and>
      trace s' = trace (initial_state example_config busy_env []) @ ext \<and>
      filter (\<lambda>e. \<not> is_stderr e) ext =
        [Produce ''topic'' (uuid4 busy_env 0) ''000'' BufferError, Poll (PyFloat backoff_seconds),
         Produce ''topic'' (uuid4 busy_env 1) ''000'' BufferError, Poll (PyFloat backoff_seconds),
         Produce ''topic'' (uuid4 busy_env 2) ''000'' Enqueued] \<and>
      length (filter is_stderr ext) = 1)"
proof -
  let ?s = "(initial_state example_config busy_env [])\<lparr>n_produce := 1\<rparr>"
  have h1: "\<forall>i<2. produce_outcome busy_env (n_produce ?s + i) = BufferError"
    by (auto simp: busy_env_def initial_state_def)
  have h2: "produce_outcome busy_env (n_produce ?s + 2) = Enqueued"
    by (simp add: busy_env_def initial_state_def)
  have u: "[0..<2] = [0, 1]" by (simp add: upt_conv_Cons)
  have n: "n_produce ?s = 1" "n_poll ?s = 0" "n_uuid ?s = 0" "bytes_sent ?s = 0"
    by (simp_all add: initial_state_def)
  have d: "delivery_reports busy_env 0 = []"
    "delivery_reports busy_env (Suc 0) =
       [(Some ''timed out'', \<lparr>offset = Some 0\<rparr>), (None, \<lparr>offset = Some 1\<rparr>)]"
    by (simp_all add: busy_env_def)
  from send_retries_until_accepted[OF h1 h2, of "''000''" "''topic''"]
  obtain s' ext where e: "send busy_env ''000'' ''topic'' ?s = Some (Inr s')"
    "n_produce s' = n_produce ?s + 2 + 1" "n_poll s' = n_poll ?s + 2"
    "bytes_sent s' = bytes_sent ?s" "trace s' = trace ?s @ ext"
    "filter (\<lambda>e. \<not> is_stderr e) ext =
      concat (map (\<lambda>i. [Produce ''topic'' (uuid4 busy_env (n_uuid ?s + i)) ''000'' BufferError,
                          Poll (PyFloat backoff_seconds)]) [0..<2]) @
      [Produce ''topic'' (uuid4 busy_env (n_uuid ?s + 2)) ''000'' Enqueued]"
    "filter is_stderr ext =
      failure_lines (concat (map (\<lambda>i. delivery_reports busy_env (n_poll ?s + i)) [0..<2]))"
    by blast
  have "n_produce s' = 4" "n_poll s' = 2" "bytes_sent s' = 0"
    "trace s' = trace (initial_state example_config busy_env []) @ ext"
    using e(2-5) n by simp_all
  moreover have "filter (\<lambda>e. \<not> is_stderr e) ext =
        [Produce ''topic'' (uuid4 busy_env 0) ''000'' BufferError, Poll (PyFloat backoff_seconds),
         Produce ''topic'' (uuid4 busy_env 1) ''000'' BufferError, Poll (PyFloat backoff_seconds),
         Produce ''topic'' (uuid4 busy_env 2) ''000'' Enqueued]"
    unfolding e(6) u n by (simp add: numeral_2_eq_2)
  moreover have "length (filter is_stderr ext) = 1"
    unfolding e(7) u n by (simp add: d)
  moreover have "produce_outcome busy_env 1 = BufferError" "produce_outcome busy_env 2 = BufferError"
    "produce_outcome busy_env 3 = Enqueued"
    by (simp_all add: busy_env_def)
  ultimately show ?thesis using n(1) e(1) by blast
qed

text \<open>
  C6. A delivery report with an error makes the callback append one line to standard
  error that holds the offset of the message and the error; a report without error
  changes nothing. The callback never calls \<open>produce\<close> and never touches the byte
  counter. \<open>poll\<close> and \<open>flush\<close> add one such line for each failed report they serve and
  nothing for the others. Whatever the deliveries report, a run with positive sizes below
  \<open>2 ^ 53\<close> and an accepting client ends with the same number of messages handed over
  and the same byte counter.
\<close>

theorem delivery_failure_only_logged:
  "on_delivery_cb (Some e) msg s =
     s\<lparr>trace := trace s @
       [Stderr (''Delivery failed for offset='' @ str_offset (offset msg) @
                '' error='' @ e @ [CHR 0x0A])]\<rparr> \<and>
   on_delivery_cb None msg s = s \<and>
   bytes_sent (on_delivery_cb err msg s) = bytes_sent s \<and>
   n_produce (on_delivery_cb err msg s) = n_produce s \<and>
   trace (poll env timeout s) =
     trace s @ Poll timeout # failure_lines (delivery_reports env (n_poll s)) \<and>
   trace (flush env s) = trace s @ Flush # failure_lines (delivery_reports env (n_poll s)) \<and>
   list_all is_stderr (failure_lines rs) \<and>
   length (failure_lines rs) = length (filter (\<lambda>r. fst r \<noteq> None) rs) \<and>
   (moderate cfg \<and> accepting env \<longrightarrow>
      (\<exists>total_messages batches r.
         plan cfg = Inr (total_messages, batches) \<and>
         main cfg (env\<lparr>delivery_reports := reports\<rparr>) = Some (Inr r) \<and>
         bytes_sent r = batches * JOB_BATCH_SIZE cfg * JOB_MSG_BYTES cfg \<and>
         int (enqueued (trace r)) = batches * JOB_BATCH_SIZE cfg))"
proof (intro conjI impI)
  assume a: "moderate cfg \<and> accepting env"
  then have "accepting (env\<lparr>delivery_reports := reports\<rparr>)" by simp
  from main_total_counts[OF _ this] a
  show "\<exists>total_messages batches r.
         plan cfg = Inr (total_messages, batches) \<and>
         main cfg (env\<lparr>delivery_reports := reports\<rparr>) = Some (Inr r) \<and>
         bytes_sent r = batches * JOB_BATCH_SIZE cfg * JOB_MSG_BYTES cfg \<and>
         int (enqueued (trace r)) = batches * JOB_BATCH_SIZE cfg"
    by blast
qed (simp_all add: on_delivery_cb_def poll_trace flush_trace failure_lines_stderr
      length_failure_lines split: option.split)

theorem delivery_failure_only_logged_witness:
  "moderate example_config \<and> accepting example_env \<and>
   (\<exists>r. main example_config
           (example_env\<lparr>delivery_reports := delivery_reports busy_env\<rparr>) = Some (Inr r) \<and>
        bytes_sent r = 1800 \<and> enqueued (trace r) = 6)"
proof -
  have p: "plan example_config = Inr (4, 2)"
    using plan_exact[OF moderate_example] by (simp add: ceil_div_example)
  note t = delivery_failure_only_logged[where cfg = example_config and env = example_env
      and reports = "delivery_reports busy_env"]
  note run = t[THEN conjunct2, THEN conjunct2, THEN conjunct2, THEN conjunct2,
      THEN conjunct2, THEN conjunct2, THEN conjunct2, THEN conjunct2]
  from run moderate_example accepting_example p
  obtain r where
    "main example_config (example_env\<lparr>delivery_reports := delivery_reports busy_env\<rparr>) = Some (Inr r)"
    "bytes_sent r = 2 * JOB_BATCH_SIZE example_config * JOB_MSG_BYTES example_config"
    "int (enqueued (trace r)) = 2 * JOB_BATCH_SIZE example_config"
    by auto
  then show ?thesis using moderate_example accepting_example by auto
qed

text \<open>
  C7. The counter is 0 when the loop is entered. The callback, \<open>poll\<close>, \<open>flush\<close>,
  \<open>send\<close>, the report and the final lines leave it as it is; the only assignment is the
  one that follows a returned \<open>send\<close> in the inner loop and adds the message size. So
  after \<open>j\<close> rounds of the inner loop it has grown by \<open>j\<close> message sizes while \<open>j\<close>
  messages were handed over, and after any number of rounds of the outer loop, and at the
  end of a run, it is the message size times the number of messages handed to the client,
  whatever was delivered. With a message size that is not negative it never decreases.
  All of this happens in one thread: the callbacks run inside \<open>poll\<close> and \<open>flush\<close>.
\<close>

theorem bytes_sent_counts_enqueued:
  "bytes_sent (initial_state cfg env conf) = 0 \<and>
   bytes_sent (on_delivery_cb err msg s) = bytes_sent s \<and>
   bytes_sent (poll env timeout s) = bytes_sent s \<and>
   bytes_sent (flush env s) = bytes_sent s \<and>
   (send env payload topic s = Some (Inr s') \<longrightarrow> bytes_sent s' = bytes_sent s) \<and>
   (report env s = Inr s' \<longrightarrow> bytes_sent s' = bytes_sent s) \<and>
   (finish env s = Inr s' \<longrightarrow> bytes_sent s' = bytes_sent s) \<and>
   (send_batch cfg env j s = Some (Inr s') \<longrightarrow>
      bytes_sent s' = bytes_sent s + int j * JOB_MSG_BYTES cfg \<and>
      enqueued (trace s') = enqueued (trace s) + j) \<and>
   (batch_loop cfg env n s = Some (Inr s') \<longrightarrow>
      (\<exists>k. bytes_sent s' = bytes_sent s + int k * JOB_MSG_BYTES cfg \<and>
           enqueued (trace s') = enqueued (trace s) + k) \<and>
      (0 \<le> JOB_MSG_BYTES cfg \<longrightarrow> bytes_sent s \<le> bytes_sent s')) \<and>
   (main cfg env = Some (Inr r) \<longrightarrow>
      bytes_sent r = int (enqueued (trace r)) * JOB_MSG_BYTES cfg)"
proof (intro conjI impI)
  assume "send env payload topic s = Some (Inr s')"
  from send_effect(2)[OF this] show "bytes_sent s' = bytes_sent s" .
next
  assume "report env s = Inr s'"
  from report_effect(2)[OF this] show "bytes_sent s' = bytes_sent s" .
next
  assume "finish env s = Inr s'"
  from finish_effect[OF this] show "bytes_sent s' = bytes_sent s" by simp
next
  assume h: "send_batch cfg env j s = Some (Inr s')"
  from send_batch_effect[OF h] show "bytes_sent s' = bytes_sent s + int j * JOB_MSG_BYTES cfg"
    by simp
  from send_batch_effect[OF h] show "enqueued (trace s') = enqueued (trace s) + j" by auto
next
  assume h: "batch_loop cfg env n s = Some (Inr s')"
  from batch_loop_effect[OF h] obtain ext where e: "trace s' = trace s @ ext"
    "bytes_sent s' = bytes_sent s + int (enqueued ext) * JOB_MSG_BYTES cfg" by auto
  then show "\<exists>k. bytes_sent s' = bytes_sent s + int k * JOB_MSG_BYTES cfg \<and>
           enqueued (trace s') = enqueued (trace s) + k"
    by (intro exI[of _ "enqueued ext"]) simp
  assume "0 \<le> JOB_MSG_BYTES cfg"
  then have "0 \<le> int (enqueued ext) * JOB_MSG_BYTES cfg" by simp
  then show "bytes_sent s \<le> bytes_sent s'" using e(2) by simp
next
  assume "main cfg env = Some (Inr r)"
  from main_counts[OF this] show "bytes_sent r = int (enqueued (trace r)) * JOB_MSG_BYTES cfg"
    by blast
qed simp_all

theorem bytes_sent_counts_enqueued_witness:
  "(\<exists>s'. send busy_env ''0'' ''topic'' (initial_state example_config busy_env []) = Some (Inr s') \<and>
      bytes_sent s' = 0) \<and>
   (\<exists>s'. report busy_env (initial_state example_config busy_env []) = Inr s' \<and> bytes_sent s' = 0) \<and>
   (\<exists>s'. finish busy_env (initial_state example_config busy_env []) = Inr s' \<and> bytes_sent s' = 0) \<and>
   (\<exists>s'. send_batch example_config busy_env 2 (initial_state example_config busy_env []) = Some (Inr s') \<and>
      bytes_sent s' = 600 \<and> enqueued (trace s') = 2) \<and>
   (\<exists>s'. batch_loop example_config busy_env 2 (initial_state example_config busy_env []) = Some (Inr s') \<and>
      0 \<le> bytes_sent s') \<and>
   (\<exists>r. main example_config busy_env = Some (Inr r) \<and>
      bytes_sent r = int (enqueued (trace r)) * 300)"
proof -
  let ?s0 = "initial_state example_config busy_env []"
  note t = bytes_sent_counts_enqueued[where cfg = example_config and env = busy_env and s = ?s0]
  obtain s1 where s1: "send busy_env ''0'' ''topic'' ?s0 = Some (Inr s1)"
    using send_total[OF accepting_busy] by blast
  obtain s2 where s2: "report busy_env ?s0 = Inr s2"
    using report_total[of ?s0] by auto
  obtain s3 where s3: "finish busy_env ?s0 = Inr s3"
    using finish_total[of ?s0] by auto
  obtain s4 where s4: "send_batch example_config busy_env 2 ?s0 = Some (Inr s4)"
    using send_batch_total[OF accepting_busy] by blast
  have "\<exists>s'. batch_loop example_config busy_env 2 ?s0 = Some (Inr s')"
    by (rule batch_loop_total[OF accepting_busy]) simp_all
  then obtain s5 where s5: "batch_loop example_config busy_env 2 ?s0 = Some (Inr s5)" by blast
  obtain r where r: "main example_config busy_env = Some (Inr r)"
    using main_total[OF moderate_example accepting_busy] by blast
  from t[where s' = s1 and payload = "''0''" and topic = "''topic''"] s1
  have 1: "bytes_sent s1 = 0" by simp
  from t[where s' = s2] s2 have 2: "bytes_sent s2 = 0" by simp
  from t[where s' = s3] s3 have 3: "bytes_sent s3 = 0" by simp
  from t[where s' = s4 and j = 2] s4
  have 4: "bytes_sent s4 = 600" "enqueued (trace s4) = 2" by simp_all
  from t[where s' = s5 and n = 2] s5 have 5: "0 \<le> bytes_sent s5" by simp
  from t[where r = r] r have 6: "bytes_sent r = int (enqueued (trace r)) * 300" by simp
  show ?thesis using s1 s2 s3 s4 s5 r 1 2 3 4 5 6 by blast
qed

subsection \<open>Floats that stay exact\<close>

lemma round_to_double_fixed:
  assumes "round_to_double q = Finite q" and "0 < q"
  shows "rat_of_int (round_half_even (q / 2 powi max (ilog2 q - 52) (- 1074))) *
           2 powi max (ilog2 q - 52) (- 1074) = q"
    and "q < 2 ^ 1024"
proof -
  let ?r = "rat_of_int (round_half_even (q / 2 powi max (ilog2 q - 52) (- 1074))) *
           2 powi max (ilog2 q - 52) (- 1074)"
  have a: "\<bar>q\<bar> = q" "sgn q = 1" "q \<noteq> 0" using assms(2) by auto
  have r: "\<not> 2 ^ 1024 \<le> ?r \<and> ?r = q"
    using assms(1) a assms(2) unfolding round_to_double_def Let_def
    by (simp split: if_splits)
  show "?r = q" using r by simp
  show "q < 2 ^ 1024" using r by simp
qed

lemma div_1024_exact:
  assumes "round_to_double q = Finite q" and "1024 \<le> q"
  shows "round_to_double (q / 1024) = Finite (q / 1024)"
proof -
  have q: "0 < q" using assms(2) by simp
  define e0 where "e0 = ilog2 q"
  note b = ilog2_bounds[OF q, folded e0_def]
  have "(2::rat) powi 10 < 2 powi (e0 + 1)" using b(2) assms(2) by simp
  then have "10 < e0 + 1" by (simp only: powi2_less_iff)
  then have e10: "10 \<le> e0" by simp
  then have e: "max (e0 - 52) (- 1074) = e0 - 52" by simp
  define m where "m = round_half_even (q / 2 powi (e0 - 52))"
  note f = round_to_double_fixed[OF assms(1) q, folded e0_def, unfolded e, folded m_def]
  have p: "(2::rat) powi (e0 - 62) = 2 powi (e0 - 52) / 1024"
  proof -
    have "e0 - 62 = (e0 - 52) - 10" by simp
    then have "(2::rat) powi (e0 - 62) = 2 powi (e0 - 52) / 2 powi 10"
      by (simp only: powi2_diff)
    then show ?thesis by simp
  qed
  have s: "(2::rat) powi (e0 - 10) = 2 powi e0 / 1024" "(2::rat) powi (e0 - 10 + 1) = 2 powi (e0 + 1) / 1024"
  proof -
    have "(2::rat) powi (e0 - 10) = 2 powi e0 / 2 powi 10" by (simp only: powi2_diff)
    then show "(2::rat) powi (e0 - 10) = 2 powi e0 / 1024" by simp
    have "e0 - 10 + 1 = (e0 + 1) - 10" by simp
    then have "(2::rat) powi (e0 - 10 + 1) = 2 powi (e0 + 1) / 2 powi 10"
      by (simp only: powi2_diff)
    then show "(2::rat) powi (e0 - 10 + 1) = 2 powi (e0 + 1) / 1024" by simp
  qed
  have pp: "(0::rat) < 2 powi (e0 - 52)" by simp
  have "round_to_double (q / 1024) = Finite (of_int m * 2 powi (e0 - 62))"
  proof (rule round_to_double_pos[where ?e0.0 = "e0 - 10"])
    show "2 powi (e0 - 10) \<le> q / 1024" unfolding s using b(1) by simp
    show "q / 1024 < 2 powi (e0 - 10 + 1)" unfolding s using b(2) by simp
    show "e0 - 62 = max (e0 - 10 - 52) (- 1074)" using e10 by simp
    show "round_half_even (q / 1024 / 2 powi (e0 - 62)) = m"
      unfolding p m_def using pp by simp
    have "rat_of_int m * 2 powi (e0 - 62) = q / 1024" unfolding p using f(1) by simp
    then show "rat_of_int m * 2 powi (e0 - 62) < 2 ^ 1024" using f(2) q by simp
  qed
  moreover have "rat_of_int m * 2 powi (e0 - 62) = q / 1024" unfolding p using f(1) by simp
  ultimately show ?thesis by simp
qed

lemma round_to_double_int:
  assumes "0 \<le> n" and "n < 2 ^ 53"
  shows "round_to_double (of_int n) = Finite (of_int n)"
proof (cases "n = 0")
  case True
  then show ?thesis by (simp add: round_to_double_def)
next
  case False
  define q where "q = rat_of_int n"
  have n: "1 \<le> n" using assms(1) False by simp
  have q1: "1 \<le> q" unfolding q_def using n by simp
  have q: "0 < q" using q1 by simp
  have q53: "q < 2 ^ 53"
  proof -
    have "rat_of_int n < of_int (2 ^ 53)" using assms(2) unfolding of_int_less_iff .
    then show ?thesis by (simp add: q_def)
  qed
  define e0 where "e0 = ilog2 q"
  note b = ilog2_bounds[OF q, folded e0_def]
  have "(2::rat) powi e0 < 2 powi 53" using b(1) q53 by simp
  then have e53: "e0 < 53" by (simp only: powi2_less_iff)
  have "(2::rat) powi 0 < 2 powi (e0 + 1)" using b(2) q1 by simp
  then have "0 < e0 + 1" by (simp only: powi2_less_iff)
  then have e0: "0 \<le> e0" by simp
  define P :: int where "P = 2 ^ nat (52 - e0)"
  have Ppos: "0 < P" by (simp add: P_def)
  have pe: "(2::rat) powi (e0 - 52) = 1 / of_int P"
    using e53 by (simp add: P_def power_int_def field_simps)
  have y: "q / 2 powi (e0 - 52) = of_int (n * P)" by (simp add: pe q_def)
  have "round_to_double q = Finite (of_int (n * P) * 2 powi (e0 - 52))"
  proof (rule round_to_double_pos[where ?e0.0 = e0])
    show "2 powi e0 \<le> q" by (rule b(1))
    show "q < 2 powi (e0 + 1)" by (rule b(2))
    show "e0 - 52 = max (e0 - 52) (- 1074)" using e0 by simp
    show "round_half_even (q / 2 powi (e0 - 52)) = n * P"
      unfolding y by (rule round_half_even_of_int)
    have "rat_of_int (n * P) * 2 powi (e0 - 52) = q" using Ppos by (simp add: pe q_def)
    then show "rat_of_int (n * P) * 2 powi (e0 - 52) < 2 ^ 1024" using q53 by simp
  qed
  moreover have "rat_of_int (n * P) * 2 powi (e0 - 52) = q" using Ppos by (simp add: pe q_def)
  ultimately show ?thesis by (simp add: q_def)
qed

lemma round_to_double_idem_pos:
  assumes "round_to_double q = Finite x" and "0 < q"
  shows "round_to_double x = Finite x" and "0 \<le> x"
proof -
  define e where "e = max (ilog2 q - 52) (- 1074)"
  define m where "m = round_half_even (q / 2 powi e)"
  define r where "r = rat_of_int m * 2 powi e"
  have a: "\<bar>q\<bar> = q" "sgn q = 1" "q \<noteq> 0" using assms(2) by auto
  have rx: "\<not> 2 ^ 1024 \<le> r \<and> r = x"
    using assms(1) a assms(2) unfolding round_to_double_def Let_def r_def m_def e_def
    by (simp split: if_splits)
  have pe: "(0::rat) < 2 powi e" by simp
  note b = ilog2_bounds[OF assms(2)]
  have "0 \<le> q / 2 powi e" using assms(2) by simp
  then have "rat_of_int 0 \<le> q / 2 powi e" by simp
  then have m0: "0 \<le> m" unfolding m_def by (rule round_half_even_ge)
  show x0: "0 \<le> x" using rx m0 by (auto simp: r_def)
  have e_ge: "ilog2 q - 52 \<le> e" "- 1074 \<le> e" by (simp_all add: e_def)
  have "(2::rat) powi (ilog2 q + 1) \<le> 2 powi (e + 53)"
    using e_ge(1) by (simp add: powi2_le_iff)
  then have "q < 2 powi (e + 53)" using b(2) by simp
  then have "q / 2 powi e < 2 powi 53"
    using pe by (simp add: powi2_add pos_divide_less_eq mult.commute)
  then have "q / 2 powi e \<le> rat_of_int (2 ^ 53)" by simp
  then have m53: "m \<le> 2 ^ 53" unfolding m_def by (rule round_half_even_le)
  show "round_to_double x = Finite x"
  proof (cases "m = 0")
    case True
    then have "x = 0" using rx by (simp add: r_def)
    then show ?thesis by (simp add: round_to_double_def)
  next
    case False
    then have m1: "1 \<le> m" using m0 by simp
    show ?thesis
    proof (cases "m = 2 ^ 53")
      case True
      have r: "r = 2 powi (e + 53)" unfolding r_def True by (simp add: powi2_add)
      have h: "round_half_even 4503599627370496 = 4503599627370496"
        using round_half_even_of_int[of 4503599627370496] by simp
      have p1: "(2::rat) powi (e + 1) = 2 powi e * 2" by (simp add: powi2_add)
      have p53: "(2::rat) powi (e + 53) = 2 powi e * 2 ^ 53" by (simp add: powi2_add)
      have "round_to_double r = Finite (of_int 4503599627370496 * 2 powi (e + 1))"
      proof (rule round_to_double_pos[where ?e0.0 = "e + 53"])
        show "2 powi (e + 53) \<le> r" by (simp add: r)
        show "r < 2 powi (e + 53 + 1)" unfolding r by (simp add: powi2_less_iff)
        show "e + 1 = max (e + 53 - 52) (- 1074)" using e_ge(2) by simp
        show "round_half_even (r / 2 powi (e + 1)) = 4503599627370496"
          unfolding r p1 p53 using pe by (simp add: h)
        have "rat_of_int 4503599627370496 * 2 powi (e + 1) = r"
          unfolding r p1 p53 by simp
        then show "rat_of_int 4503599627370496 * 2 powi (e + 1) < 2 ^ 1024" using rx by simp
      qed
      moreover have "rat_of_int 4503599627370496 * 2 powi (e + 1) = r"
        unfolding r p1 p53 by simp
      ultimately show ?thesis using rx by simp
    next
      case neq: False
      then have m_lt: "m < 2 ^ 53" using m53 by simp
      have rpos: "0 < r" unfolding r_def using m1 pe by (simp add: zero_less_mult_iff)
      note br = ilog2_bounds[OF rpos]
      have "rat_of_int m < of_int (2 ^ 53)" using m_lt unfolding of_int_less_iff .
      then have "r < 2 ^ 53 * 2 powi e" unfolding r_def using pe by simp
      then have "r < 2 powi (e + 53)" by (simp add: powi2_add mult.commute)
      then have "(2::rat) powi ilog2 r < 2 powi (e + 53)" using br(1) by simp
      then have up: "ilog2 r < e + 53" by (simp only: powi2_less_iff)
      have e': "max (ilog2 r - 52) (- 1074) = e"
      proof (cases "e = - 1074")
        case True
        then show ?thesis using up by simp
      next
        case False
        then have en: "e = ilog2 q - 52" unfolding e_def by simp
        have "(2::rat) powi (e + 52) \<le> 2 powi ilog2 q" unfolding en by simp
        then have "2 powi (e + 52) \<le> q" using b(1) by simp
        then have "2 ^ 52 \<le> q / 2 powi e"
          using pe by (simp add: powi2_add pos_le_divide_eq mult.commute)
        then have "rat_of_int (2 ^ 52) \<le> q / 2 powi e" by simp
        then have "2 ^ 52 \<le> m" unfolding m_def by (rule round_half_even_ge)
        then have "rat_of_int (2 ^ 52) \<le> of_int m" unfolding of_int_le_iff .
        then have "2 ^ 52 * 2 powi e \<le> r" unfolding r_def using pe by simp
        then have "2 powi (e + 52) \<le> r" by (simp add: powi2_add mult.commute)
        then have "(2::rat) powi (e + 52) < 2 powi (ilog2 r + 1)" using br(2) by simp
        then have "e + 52 < ilog2 r + 1" by (simp only: powi2_less_iff)
        then show ?thesis using up e_ge(2) by simp
      qed
      have "round_to_double r = Finite (of_int m * 2 powi e)"
      proof (rule round_to_double_pos[where ?e0.0 = "ilog2 r"])
        show "2 powi ilog2 r \<le> r" by (rule br(1))
        show "r < 2 powi (ilog2 r + 1)" by (rule br(2))
        show "e = max (ilog2 r - 52) (- 1074)" using e' by simp
        have "r / 2 powi e = of_int m" unfolding r_def using pe by simp
        then show "round_half_even (r / 2 powi e) = m" by (simp add: round_half_even_of_int)
        show "rat_of_int m * 2 powi e < 2 ^ 1024" using rx by (simp add: r_def)
      qed
      then show ?thesis using rx by (simp add: r_def)
    qed
  qed
qed

lemma round_to_double_minus:
  "round_to_double (- q) =
     (case round_to_double q of Finite x \<Rightarrow> Finite (- x) | PosInf \<Rightarrow> NegInf
      | NegInf \<Rightarrow> PosInf | NaN \<Rightarrow> NaN)"
  unfolding round_to_double_def Let_def by (simp add: sgn_minus)

lemma round_to_double_idem:
  assumes "round_to_double q = Finite x"
  shows "round_to_double x = Finite x"
proof -
  consider "q = 0" | "0 < q" | "q < 0" by linarith
  then show ?thesis
  proof cases
    case 1
    then show ?thesis using assms by (simp add: round_to_double_def)
  next
    case 2
    then show ?thesis using round_to_double_idem_pos(1)[OF assms] by simp
  next
    case 3
    have "round_to_double (- q) = Finite (- x)"
      using assms by (simp add: round_to_double_minus)
    from round_to_double_idem_pos(1)[OF this] 3
    have "round_to_double (- x) = Finite (- x)" by simp
    then show ?thesis by (simp add: round_to_double_minus split: pyfloat.splits)
  qed
qed

lemma round_to_double_ge_1024:
  assumes "round_to_double q = Finite x" and "1024 \<le> q"
  shows "1024 \<le> x"
proof -
  have q: "0 < q" using assms(2) by simp
  define e0 where "e0 = ilog2 q"
  note b = ilog2_bounds[OF q, folded e0_def]
  have "(2::rat) powi 10 < 2 powi (e0 + 1)" using b(2) assms(2) by simp
  then have "10 < e0 + 1" by (simp only: powi2_less_iff)
  then have e10: "10 \<le> e0" by simp
  then have e: "max (e0 - 52) (- 1074) = e0 - 52" by simp
  define m where "m = round_half_even (q / 2 powi (e0 - 52))"
  have a: "\<bar>q\<bar> = q" "sgn q = 1" "q \<noteq> 0" using q by auto
  have "x = rat_of_int (round_half_even (q / 2 powi max (ilog2 q - 52) (- 1074))) *
      2 powi max (ilog2 q - 52) (- 1074)"
    using assms(1) a q unfolding round_to_double_def Let_def by (simp split: if_splits)
  then have x: "x = rat_of_int m * 2 powi (e0 - 52)"
    unfolding m_def using e by (simp add: e0_def)
  have pe: "(0::rat) < 2 powi (e0 - 52)" by simp
  have p: "(2::rat) powi e0 = 2 ^ 52 * 2 powi (e0 - 52)"
  proof -
    have "(2::rat) powi (52 + (e0 - 52)) = 2 powi 52 * 2 powi (e0 - 52)" by (rule powi2_add)
    then show ?thesis by simp
  qed
  have "2 ^ 52 \<le> q / 2 powi (e0 - 52)" using b(1) pe unfolding p by (simp add: pos_le_divide_eq)
  then have "rat_of_int (2 ^ 52) \<le> q / 2 powi (e0 - 52)" by simp
  then have "2 ^ 52 \<le> m" unfolding m_def by (rule round_half_even_ge)
  then have "rat_of_int (2 ^ 52) \<le> of_int m" unfolding of_int_le_iff .
  then have "2 ^ 52 * 2 powi (e0 - 52) \<le> x" unfolding x using pe by simp
  then have "2 powi e0 \<le> x" unfolding p .
  moreover have "(2::rat) powi 10 \<le> 2 powi e0" using e10 by (simp only: powi2_le_iff)
  ultimately show ?thesis by simp
qed

lemma float_truediv_double:
  assumes "float_truediv x y = Inr (Finite r)"
  shows "round_to_double r = Finite r"
proof (cases y)
  case (Finite b)
  show ?thesis
  proof (cases x)
    case (Finite a)
    then have "round_to_double (a / b) = Finite r"
      using assms \<open>y = Finite b\<close> by (simp split: if_splits)
    then show ?thesis by (rule round_to_double_idem)
  qed (use assms \<open>y = Finite b\<close> in \<open>simp_all split: if_splits\<close>)
next
  case PosInf
  then show ?thesis using assms by (cases x) (auto simp: round_to_double_def)
next
  case NegInf
  then show ?thesis using assms by (cases x) (auto simp: round_to_double_def)
next
  case NaN
  then show ?thesis using assms by (cases x) auto
qed

subsection \<open>The unit that the formatters select\<close>

lemma unit_index_exists:
  fixes q :: rat
  shows "\<exists>i\<le>5. (i = 0 \<or> 1024 ^ i \<le> q) \<and> (i < 5 \<longrightarrow> q < 1024 ^ (i + 1))"
proof -
  have "q < 1024 \<or> (1024 \<le> q \<and> q < 1024 ^ 2) \<or> (1024 ^ 2 \<le> q \<and> q < 1024 ^ 3) \<or>
    (1024 ^ 3 \<le> q \<and> q < 1024 ^ 4) \<or> (1024 ^ 4 \<le> q \<and> q < 1024 ^ 5) \<or> 1024 ^ 5 \<le> q"
    by linarith
  then consider "q < 1024" | "1024 \<le> q \<and> q < 1024 ^ 2" | "1024 ^ 2 \<le> q \<and> q < 1024 ^ 3"
    | "1024 ^ 3 \<le> q \<and> q < 1024 ^ 4" | "1024 ^ 4 \<le> q \<and> q < 1024 ^ 5" | "1024 ^ 5 \<le> q"
    by blast
  then show ?thesis
  proof cases
    case 1 then show ?thesis by (intro exI[of _ 0]) simp
  next
    case 2 then show ?thesis by (intro exI[of _ 1]) simp
  next
    case 3 then show ?thesis by (intro exI[of _ 2]) simp
  next
    case 4 then show ?thesis by (intro exI[of _ 3]) simp
  next
    case 5 then show ?thesis by (intro exI[of _ 4]) simp
  next
    case 6 then show ?thesis by (intro exI[of _ 5]) simp
  qed
qed

lemma fmt_loop_float_exact:
  assumes "round_to_double q = Finite q" and "i \<le> length units"
    and "i = 0 \<or> 1024 ^ i \<le> q" and "i < length units \<longrightarrow> q < 1024 ^ (i + 1)"
  shows "fmt_loop d units final (PyFloat (Finite q)) =
    Inr (format_float d (Finite (q / 1024 ^ i)) @ '' '' @ (units @ [final]) ! i)"
  using assms
proof (induction units arbitrary: q i)
  case Nil
  then show ?case by simp
next
  case (Cons u us)
  show ?case
  proof (cases i)
    case 0
    then show ?thesis using Cons.prems by simp
  next
    case (Suc j)
    have big: "1024 * 1024 ^ j \<le> q" using Cons.prems(3) Suc by simp
    have "(1::rat) \<le> 1024 ^ j" by simp
    then have q1024: "1024 \<le> q" using big by linarith
    have d: "round_to_double (q / 1024) = Finite (q / 1024)"
      using div_1024_exact[OF Cons.prems(1) q1024] .
    have "fmt_loop d us final (PyFloat (Finite (q / 1024))) =
      Inr (format_float d (Finite (q / 1024 / 1024 ^ j)) @ '' '' @ (us @ [final]) ! j)"
    proof (rule Cons.IH[OF d])
      show "j \<le> length us" using Cons.prems(2) Suc by simp
      show "j = 0 \<or> 1024 ^ j \<le> q / 1024" using big by (simp add: pos_le_divide_eq mult.commute)
      show "j < length us \<longrightarrow> q / 1024 < 1024 ^ (j + 1)"
        using Cons.prems(4) Suc by (simp add: pos_divide_less_eq mult.commute)
    qed
    moreover have "q / 1024 / 1024 ^ j = q / 1024 ^ i" using Suc by simp
    ultimately show ?thesis using q1024 d Suc by simp
  qed
qed

lemma fmt_loop_int_exact:
  assumes "0 \<le> n" and "n < 2 ^ 1023" and "float_of_int n = Inr (Finite x)"
    and "i \<le> Suc (length us)"
    and "i = 0 \<or> 1024 ^ i \<le> x" and "i < Suc (length us) \<longrightarrow> x < 1024 ^ (i + 1)"
  shows "fmt_loop d (u # us) final (PyInt n) =
    Inr (format_float d (Finite (x / 1024 ^ i)) @ '' '' @ (u # us @ [final]) ! i)"
proof -
  have rx: "round_to_double (of_int n) = Finite x"
    using assms(3) by (simp add: float_of_int_def split: pyfloat.splits)
  have dx: "round_to_double x = Finite x" using rx by (rule round_to_double_idem)
  have small: "n < 1024 \<Longrightarrow> x = of_int n"
  proof -
    assume "n < 1024"
    then have "n < 2 ^ 53" by simp
    from round_to_double_int[OF assms(1) this] rx show "x = of_int n" by simp
  qed
  have large: "1024 \<le> n \<Longrightarrow> 1024 \<le> x"
  proof -
    assume "1024 \<le> n"
    then have "rat_of_int 1024 \<le> of_int n" unfolding of_int_le_iff .
    then have "1024 \<le> rat_of_int n" by simp
    from round_to_double_ge_1024[OF rx this] show "1024 \<le> x" .
  qed
  show ?thesis
  proof (cases i)
    case 0
    then have "x < 1024" using assms(6) by simp
    then have "n < 1024" using large by (cases "n < 1024") auto
    then show ?thesis using 0 assms(3) by simp
  next
    case (Suc j)
    have big: "1024 * 1024 ^ j \<le> x" using assms(5) Suc by simp
    have "(1::rat) \<le> 1024 ^ j" by simp
    then have x1024: "1024 \<le> x" using big by linarith
    then have n1024: "\<not> n < 1024" using small by (cases "n < 1024") auto
    have d: "round_to_double (x / 1024) = Finite (x / 1024)"
      using div_1024_exact[OF dx x1024] .
    have "fmt_loop d us final (PyFloat (Finite (x / 1024))) =
      Inr (format_float d (Finite (x / 1024 / 1024 ^ j)) @ '' '' @ (us @ [final]) ! j)"
    proof (rule fmt_loop_float_exact[OF d])
      show "j \<le> length us" using assms(4) Suc by simp
      show "j = 0 \<or> 1024 ^ j \<le> x / 1024" using big by (simp add: pos_le_divide_eq mult.commute)
      show "j < length us \<longrightarrow> x / 1024 < 1024 ^ (j + 1)"
        using assms(6) Suc by (simp add: pos_divide_less_eq mult.commute)
    qed
    moreover have "x / 1024 / 1024 ^ j = x / 1024 ^ i" using Suc by simp
    ultimately show ?thesis using n1024 d Suc assms(3) by simp
  qed
qed

lemma length_digits: "0 < d \<Longrightarrow> n < 10 ^ d \<Longrightarrow> length (digits n) \<le> d"
proof (induction n arbitrary: d rule: digits.induct)
  case (1 n)
  show ?case
  proof (cases "n < 10")
    case True
    then show ?thesis using "1.prems"(1) by (subst digits.simps) simp
  next
    case False
    obtain c where c: "d = Suc c" using "1.prems"(1) by (cases d) auto
    have "c \<noteq> 0" using False "1.prems"(2) c by (cases c) auto
    then have c0: "0 < c" by simp
    have "n div 10 < 10 ^ c" using "1.prems"(2) c by (simp add: less_mult_imp_div_less mult.commute)
    from "1.IH"[OF False c0 this] show ?thesis
      using False c by (subst digits.simps) simp
  qed
qed

lemma format_float_decimals:
  assumes "0 < d"
  shows "\<exists>a b. format_float d (Finite q) = a @ ''.'' @ b \<and> length b = d"
proof -
  let ?m = "nat (round_half_even (\<bar>q\<bar> * 10 ^ d))"
  let ?b = "zero_pad d (digits (?m mod 10 ^ d))"
  have "length (digits (?m mod 10 ^ d)) \<le> d" using assms by (intro length_digits) auto
  then have "length ?b = d" by (simp add: zero_pad_def)
  moreover have "format_float d (Finite q) =
      ((if q < 0 then ''-'' else '''') @ commas (digits (?m div 10 ^ d))) @ ''.'' @ ?b"
    using assms by (simp add: Let_def)
  ultimately show ?thesis by blast
qed

end
